theory Spec2Isabelle
  imports Complex_Main
begin

section \<open>Data model (types.ts)\<close>

text \<open>
  JavaScript numbers are modelled as exact reals: every constant of the program
  (150, 1.5, 2.2, 0.9, ...) is a rational, and rounding of IEEE doubles is left out.
  The levels of the game are whole numbers, modelled as \<open>int\<close>.
\<close>

datatype GameStatus = MENU | PLAYING | SHOP | GAME_OVER | VICTORY

datatype ObjectType = OBSTACLE | GEM | LETTER | SHOP_PORTAL | ALIEN | MISSILE | MONSTER

type_synonym vec3 = "real \<times> real \<times> real"

fun posX :: "vec3 \<Rightarrow> real" where "posX (x, y, z) = x"
fun posY :: "vec3 \<Rightarrow> real" where "posY (x, y, z) = y"
fun posZ :: "vec3 \<Rightarrow> real" where "posZ (x, y, z) = z"

text \<open>
  \<open>interface GameObject\<close>. The fields \<open>id\<close>, \<open>type\<close> and \<open>value\<close> are named
  \<open>oid\<close>, \<open>otype\<close> and \<open>val\<close> here; an optional field that is absent is \<open>None\<close>.
  Identifiers come from \<open>uuidv4()\<close>, modelled as a supply of fresh numbers: the
  n-th identifier handed out is n.
\<close>

record GameObject =
  oid :: nat
  otype :: ObjectType
  position :: vec3
  active :: bool
  val :: "string option"
  color :: "string option"
  targetIndex :: "nat option"
  points :: "real option"
  hasFired :: "bool option"

definition LANE_WIDTH :: real where "LANE_WIDTH = 2.2"
definition SPAWN_DISTANCE :: real where "SPAWN_DISTANCE = 120"
definition REMOVE_DISTANCE :: real where "REMOVE_DISTANCE = 20"
definition SCORE_PENALTY_BOAR :: real where "SCORE_PENALTY_BOAR = 100"
definition SCORE_PENALTY_MONSTER :: real where "SCORE_PENALTY_MONSTER = 100"
definition SCORE_PENALTY_OBSTACLE :: real where "SCORE_PENALTY_OBSTACLE = 10"

definition HUNTER_COLORS :: "string list" where
  "HUNTER_COLORS = [''#5d4037'', ''#388e3c'', ''#fbc02d'', ''#e64a19'', ''#5d4037'', ''#388e3c'']"

section \<open>LevelManager.tsx: constants and helpers\<close>

definition BASE_LETTER_INTERVAL :: real where "BASE_LETTER_INTERVAL = 150"
definition MISSILE_SPEED :: real where "MISSILE_SPEED = 28"

text \<open>\<open>BASE_LETTER_INTERVAL * Math.pow(1.5, Math.max(0, level - 1))\<close>\<close>

definition getLetterInterval :: "int \<Rightarrow> real" where
  "getLetterInterval level = BASE_LETTER_INTERVAL * (3 / 2) ^ nat (max 0 (level - 1))"

text \<open>
  \<open>getRandomLane\<close>, with the value \<open>r\<close> that \<open>Math.random()\<close> returned:
  \<open>max = floor(laneCount / 2); floor(r * (max * 2 + 1)) - max\<close>.
\<close>

definition getRandomLane :: "real \<Rightarrow> int \<Rightarrow> int" where
  "getRandomLane r laneCount =
     (let mx = laneCount div 2 in \<lfloor>r * real_of_int (mx * 2 + 1)\<rfloor> - mx)"

text \<open>JavaScript truthiness of an optional boolean and \<open>a || b\<close> on optional values.\<close>

fun truthy :: "bool option \<Rightarrow> bool" where
  "truthy None = False"
| "truthy (Some b) = b"

fun pointsOr :: "real option \<Rightarrow> real \<Rightarrow> real" where
  "pointsOr None d = d"
| "pointsOr (Some p) d = (if p = 0 then d else p)"

fun colorOr :: "string option \<Rightarrow> string \<Rightarrow> string" where
  "colorOr None d = d"
| "colorOr (Some c) d = (if c = [] then d else c)"

text \<open>Array indexing: an index outside the array reads \<open>undefined\<close>.\<close>

definition elemAt :: "'a list \<Rightarrow> int \<Rightarrow> 'a option" where
  "elemAt xs i = (if 0 \<le> i \<and> i < int (length xs) then Some (xs ! nat i) else None)"

section \<open>Calls into the store, the audio controller and the event bus\<close>

text \<open>
  The store (\<open>useStore\<close>), the audio controller and the window event listeners are
  outside this file. Every call the simulation makes into them is recorded, in order,
  in a log. An entry made while the loop handles an entity carries that entity's
  identifier; \<open>setDistance\<close> is called from the transition effect and carries none.
\<close>

datatype Effect =
    PlayerHit
  | TakeDamage real
  | OpenShop
  | CollectGem real
  | CollectLetter nat
  | PlayGemCollect
  | PlayLetterCollect
  | ParticleBurst vec3 string nat
  | SetDistance int

type_synonym Log = "(nat option \<times> Effect) list"

section \<open>The frame loop body: move, aggro, collision, removal\<close>

text \<open>The missile pushed to \<open>newSpawns\<close> when an idle boar charges.\<close>

definition chargingBoar :: "nat \<Rightarrow> GameObject \<Rightarrow> GameObject" where
  "chargingBoar uid obj =
     \<lparr>oid = uid, otype = MISSILE,
      position = (posX (position obj), 0.6, posZ (position obj) + 2),
      active = True, val = None, color = Some ''#5d4037'',
      targetIndex = None, points = None, hasFired = None\<rparr>"

text \<open>What one pass of the loop body leaves behind for one entity.\<close>

record ObjStep =
  ob :: GameObject
  keep :: bool
  spawned :: "GameObject list"
  fx :: "Effect list"
  changed :: bool

definition isDamageSource :: "ObjectType \<Rightarrow> bool" where
  "isDamageSource t = (t = OBSTACLE \<or> t = ALIEN \<or> t = MISSILE \<or> t = MONSTER)"

definition objBottom :: "GameObject \<Rightarrow> real" where
  "objBottom obj =
     (if otype obj = OBSTACLE then 0
      else if otype obj = MISSILE \<or> otype obj = MONSTER then 0
      else posY (position obj) - 0.5)"

definition objTop :: "GameObject \<Rightarrow> real" where
  "objTop obj =
     (if otype obj = OBSTACLE then 1.0
      else if otype obj = MISSILE \<or> otype obj = MONSTER then 1.6
      else posY (position obj) + 0.5)"

definition penaltyOf :: "ObjectType \<Rightarrow> real" where
  "penaltyOf t =
     (if t = MONSTER then SCORE_PENALTY_MONSTER
      else if t = MISSILE then SCORE_PENALTY_BOAR
      else SCORE_PENALTY_OBSTACLE)"

text \<open>
  The body of \<open>if (obj.active) { ... }\<close>: the portal test, the z window, the lateral
  test, then damage or collection. The result is the entity, \<open>keep\<close>, the calls made
  and whether \<open>hasChanges\<close> was set.
\<close>

definition resolveCollision ::
  "vec3 \<Rightarrow> real \<Rightarrow> GameObject \<Rightarrow> GameObject \<times> bool \<times> Effect list \<times> bool" where
  "resolveCollision playerPos prevZ obj =
     (let zThreshold = 2.0;
          inZZone = (prevZ < posZ playerPos + zThreshold
                     \<and> posZ (position obj) > posZ playerPos - zThreshold)
      in
      if otype obj = SHOP_PORTAL then
        (let dz = \<bar>posZ (position obj) - posZ playerPos\<bar> in
         if dz < 2 then (obj\<lparr>active := False\<rparr>, False, [OpenShop], True)
         else (obj, True, [], False))
      else if inZZone then
        (let dx = \<bar>posX (position obj) - posX playerPos\<bar> in
         if dx < 0.9 then
           (if isDamageSource (otype obj) then
              (let playerBottom = posY playerPos;
                   playerTop = posY playerPos + 1.8;
                   isHit = (playerBottom < objTop obj \<and> playerTop > objBottom obj)
               in
               if isHit then
                 (obj\<lparr>active := False\<rparr>, True,
                  [PlayerHit, TakeDamage (penaltyOf (otype obj))]
                  @ (if otype obj = MISSILE \<or> otype obj = MONSTER
                     then [ParticleBurst (position obj) ''#ff0000'' 50] else []),
                  True)
               else (obj, True, [], False))
            else
              (let dy = \<bar>posY (position obj) - posY playerPos\<bar> in
               if dy < 2.5 then
                 (obj\<lparr>active := False\<rparr>, True,
                  (if otype obj = GEM
                   then [CollectGem (pointsOr (points obj) 50), PlayGemCollect] else [])
                  @ (case (otype obj, targetIndex obj) of
                       (LETTER, Some i) \<Rightarrow> [CollectLetter i, PlayLetterCollect]
                     | _ \<Rightarrow> [])
                  @ [ParticleBurst (position obj) (colorOr (color obj) ''#ffffff'') 60],
                  True)
               else (obj, True, [], False)))
         else (obj, True, [], False))
      else (obj, True, [], False))"

text \<open>
  One iteration of \<open>for (const obj of currentObjects)\<close>. \<open>uid\<close> is the identifier the
  next \<open>uuidv4()\<close> call returns.
\<close>

definition stepObject :: "real \<Rightarrow> real \<Rightarrow> vec3 \<Rightarrow> nat \<Rightarrow> GameObject \<Rightarrow> ObjStep" where
  "stepObject dst safeDelta playerPos uid obj0 =
     (let moveAmount = (if otype obj0 = MISSILE then dst + MISSILE_SPEED * safeDelta else dst);
          prevZ = posZ (position obj0);
          obj1 = obj0\<lparr>position :=
                   (posX (position obj0), posY (position obj0), prevZ + moveAmount)\<rparr>;
          fires = (otype obj1 = ALIEN \<and> active obj1 \<and> \<not> truthy (hasFired obj1)
                   \<and> posZ (position obj1) > - 90);
          obj2 = (if fires then obj1\<lparr>hasFired := Some True\<rparr> else obj1);
          newSpawns = (if fires then [chargingBoar uid obj2] else []);
          (obj3, keep1, effects, ch) =
             (if active obj2 then resolveCollision playerPos prevZ obj2
              else (obj2, True, [], False));
          gone = (posZ (position obj3) > REMOVE_DISTANCE)
      in \<lparr>ob = obj3, keep = (keep1 \<and> \<not> gone), spawned = newSpawns, fx = effects,
          changed = (fires \<or> ch \<or> gone)\<rparr>)"

section \<open>The store snapshot, the frame input and the component's state\<close>

text \<open>
  The values \<open>useStore()\<close> handed to the last render; the frame callback and the
  transition effect read them from their closure.
\<close>

record Store =
  status :: GameStatus
  speed :: real
  collectedLetters :: "nat list"
  laneCount :: int
  level :: int

text \<open>
  What one frame receives from outside: the clock's \<open>delta\<close>, the world position of
  the player object (\<open>None\<close> while \<open>playerObjRef.current\<close> is null), the values the
  successive calls of \<open>Math.random()\<close> return outside the sort, and the order in which
  \<open>availableLanes.sort(() => Math.random() - 0.5)\<close> leaves the lanes.
\<close>

record FrameInput =
  delta :: real
  playerObj :: "vec3 option"
  rand :: "nat \<Rightarrow> real"
  sortLanes :: "int list \<Rightarrow> int list"

text \<open>The refs and state of \<open>LevelManager\<close>, and the position of the identifier supply.\<close>

record LMState =
  objects :: "GameObject list"
  renderTrigger :: nat
  prevStatus :: GameStatus
  prevLevel :: int
  distanceTraveled :: real
  nextLetterDistance :: real
  nextUuid :: nat

text \<open>The whole loop over \<open>currentObjects\<close>, one result per entity, in order.\<close>

fun objectLoop :: "real \<Rightarrow> real \<Rightarrow> vec3 \<Rightarrow> nat \<Rightarrow> GameObject list \<Rightarrow> ObjStep list" where
  "objectLoop dst safeDelta playerPos uid [] = []"
| "objectLoop dst safeDelta playerPos uid (obj # objs) =
     (let r = stepObject dst safeDelta playerPos uid obj
      in r # objectLoop dst safeDelta playerPos (uid + length (spawned r)) objs)"

definition keptOf :: "ObjStep list \<Rightarrow> GameObject list" where
  "keptOf rs = map ob (filter keep rs)"

definition spawnsOf :: "ObjStep list \<Rightarrow> GameObject list" where
  "spawnsOf rs = concat (map spawned rs)"

definition logOf :: "ObjStep list \<Rightarrow> Log" where
  "logOf rs = concat (map (\<lambda>r. map (\<lambda>e. (Some (oid (ob r)), e)) (fx r)) rs)"

section \<open>Spawning logic\<close>

text \<open>
  \<open>furthestZ\<close>: the least z among the kept entities that are not missiles, or -20 when
  there is none.
\<close>

definition furthestZ :: "GameObject list \<Rightarrow> real" where
  "furthestZ keptObjects =
     (case filter (\<lambda>obj. otype obj \<noteq> MISSILE) keptObjects of
        [] \<Rightarrow> - 20
      | obj # objs \<Rightarrow> fold (\<lambda>obj' m. min m (posZ (position obj'))) objs (posZ (position obj)))"

definition pickPoints :: "real \<Rightarrow> real option" where
  "pickPoints r = elemAt [10, 50, 100] \<lfloor>r * 3\<rfloor>"

definition gemColorOf :: "real option \<Rightarrow> string" where
  "gemColorOf p =
     (if p = Some 100 then ''#ffd700'' else if p = Some 50 then ''#c0c0c0'' else ''#cd7f32'')"

definition fallbackGem :: "nat \<Rightarrow> int \<Rightarrow> real \<Rightarrow> GameObject" where
  "fallbackGem uid lane spawnZ =
     \<lparr>oid = uid, otype = GEM, position = (real_of_int lane * LANE_WIDTH, 1.2, spawnZ),
      active = True, val = None, color = Some ''#ffd700'', targetIndex = None,
      points = Some 100, hasFired = None\<rparr>"

text \<open>
  The branch \<open>if (isLetterDue)\<close>. The result is the entities pushed and the new value
  of \<open>nextLetterDistance\<close>.
\<close>

definition spawnLetterDue ::
  "Store \<Rightarrow> (nat \<Rightarrow> real) \<Rightarrow> real \<Rightarrow> real \<Rightarrow> nat \<Rightarrow> GameObject list \<times> real" where
  "spawnLetterDue store rnd nextLetter spawnZ uid =
     (let lane = getRandomLane (rnd 0) (laneCount store);
          target = [''H'', ''U'', ''N'', ''T'', ''E'', ''R''];
          availableIndices =
            filter (\<lambda>i. i \<notin> set (collectedLetters store)) [0..<length target]
      in
      if availableIndices \<noteq> [] then
        (let chosenIndex =
               elemAt availableIndices \<lfloor>rnd 1 * real (length availableIndices)\<rfloor>;
             v = Option.bind chosenIndex (\<lambda>i. elemAt target (int i));
             c = Option.bind chosenIndex (\<lambda>i. elemAt HUNTER_COLORS (int i))
         in ([\<lparr>oid = uid, otype = LETTER,
               position = (real_of_int lane * LANE_WIDTH, 1.0, spawnZ),
               active = True, val = v, color = c, targetIndex = chosenIndex,
               points = None, hasFired = None\<rparr>],
             nextLetter + getLetterInterval (level store)))
      else ([fallbackGem uid lane spawnZ], nextLetter))"

text \<open>The cluster of enemies, one per chosen lane.\<close>

fun hazardCluster :: "ObjectType \<Rightarrow> real \<Rightarrow> nat \<Rightarrow> int list \<Rightarrow> GameObject list" where
  "hazardCluster spawnType spawnZ uid [] = []"
| "hazardCluster spawnType spawnZ uid (lane # lanes) =
     \<lparr>oid = uid, otype = spawnType,
      position = (real_of_int lane * LANE_WIDTH, 0.6, spawnZ), active = True,
      val = None, color = Some (if spawnType = MONSTER then ''#6a1b9a'' else ''#4e342e''),
      targetIndex = None, points = None, hasFired = Some False\<rparr>
     # hazardCluster spawnType spawnZ (Suc uid) lanes"

text \<open>
  The row of rocks, each with a 30% chance of an artifact above it; \<open>k\<close> counts the
  calls of \<open>Math.random()\<close> made so far.
\<close>

fun obstacleRow :: "(nat \<Rightarrow> real) \<Rightarrow> real \<Rightarrow> nat \<Rightarrow> nat \<Rightarrow> int list \<Rightarrow> GameObject list" where
  "obstacleRow rnd spawnZ k uid [] = []"
| "obstacleRow rnd spawnZ k uid (lane # lanes) =
     (let rock = \<lparr>oid = uid, otype = OBSTACLE,
                  position = (real_of_int lane * LANE_WIDTH, 0.4, spawnZ), active = True,
                  val = None, color = Some ''#546e7a'', targetIndex = None,
                  points = None, hasFired = None\<rparr>
      in
      if rnd k < 0.3 then
        (let pts = pickPoints (rnd (Suc k));
             gem = \<lparr>oid = Suc uid, otype = GEM,
                    position = (real_of_int lane * LANE_WIDTH, 2.0, spawnZ), active = True,
                    val = None, color = Some (gemColorOf pts), targetIndex = None,
                    points = pts, hasFired = None\<rparr>
         in rock # gem # obstacleRow rnd spawnZ (Suc (Suc k)) (Suc (Suc uid)) lanes)
      else rock # obstacleRow rnd spawnZ (Suc k) (Suc uid) lanes)"

text \<open>
  The branch \<open>else if (Math.random() > 0.1)\<close>. The result is the entities pushed and
  whether \<open>hasChanges\<close> was set.
\<close>

definition spawnRegular ::
  "Store \<Rightarrow> (nat \<Rightarrow> real) \<Rightarrow> (int list \<Rightarrow> int list) \<Rightarrow> real \<Rightarrow> nat
   \<Rightarrow> GameObject list \<times> bool" where
  "spawnRegular store rnd srt spawnZ uid =
     (if rnd 0 > 0.1 then
        (let threshold = (if level store = 1 then 0.6 else 0.2);
             isObstacle = (rnd 1 > threshold)
         in
         if isObstacle then
           (let boar = (level store = 2 \<and> rnd 2 < 0.4);
                k2 = (if level store = 2 then 3 else 2);
                monster = (level store = 3 \<and> rnd k2 < 0.4);
                k3 = (if level store = 3 then Suc k2 else k2);
                spawnType = (if monster then MONSTER else if boar then ALIEN else OBSTACLE);
                isHazard = (boar \<or> monster);
                k4 = (if isHazard then k3 else Suc k3);
                maxLane = laneCount store div 2;
                availableLanes = srt [- maxLane..maxLane]
            in
            if isHazard then
              (let maxEnemies = level store;
                   count = min \<lceil>rnd k4 * real_of_int maxEnemies\<rceil>
                               (int (length availableLanes))
               in (hazardCluster spawnType spawnZ uid (take (nat count) availableLanes), True))
            else
              (let countToSpawn = min (if rnd k4 > 0.6 then 2 else 1)
                                      (int (length availableLanes))
               in (obstacleRow rnd spawnZ (Suc k4) uid
                     (take (nat countToSpawn) availableLanes), True)))
         else
           (let lane = getRandomLane (rnd 2) (laneCount store);
                pts = pickPoints (rnd 3)
            in ([\<lparr>oid = uid, otype = GEM,
                  position = (real_of_int lane * LANE_WIDTH, 1.2, spawnZ), active = True,
                  val = None, color = Some (gemColorOf pts), targetIndex = None,
                  points = pts, hasFired = None\<rparr>], True)))
      else ([], False))"

text \<open>
  Section 2 of the frame callback: the entities pushed behind the spawn gate, the new
  \<open>nextLetterDistance\<close>, and whether \<open>hasChanges\<close> was set.
\<close>

definition planSpawn ::
  "Store \<Rightarrow> FrameInput \<Rightarrow> real \<Rightarrow> real \<Rightarrow> GameObject list \<Rightarrow> nat
   \<Rightarrow> GameObject list \<times> real \<times> bool" where
  "planSpawn store inp distance nextLetter keptObjects uid =
     (let furthest = furthestZ keptObjects in
      if furthest > - SPAWN_DISTANCE then
        (let minGap = 12 + speed store * 0.4;
             spawnZ = min (furthest - minGap) (- SPAWN_DISTANCE);
             isLetterDue = (distance \<ge> nextLetter)
         in
         if isLetterDue then
           (let (pushed, nextLetter') = spawnLetterDue store (rand inp) nextLetter spawnZ uid
            in (pushed, nextLetter', True))
         else
           (let (pushed, ch) = spawnRegular store (rand inp) (sortLanes inp) spawnZ uid
            in (pushed, nextLetter, ch)))
      else ([], nextLetter, False))"

section \<open>The frame callback\<close>

definition safeDeltaOf :: "FrameInput \<Rightarrow> real" where
  "safeDeltaOf inp = min (delta inp) 0.05"

definition playerPosOf :: "FrameInput \<Rightarrow> vec3" where
  "playerPosOf inp = (case playerObj inp of None \<Rightarrow> (0, 0, 0) | Some p \<Rightarrow> p)"

text \<open>Section 1 of the callback: the loop's results for the current entities.\<close>

definition loopResults :: "Store \<Rightarrow> FrameInput \<Rightarrow> LMState \<Rightarrow> ObjStep list" where
  "loopResults store inp st =
     objectLoop (speed store * safeDeltaOf inp) (safeDeltaOf inp) (playerPosOf inp)
       (nextUuid st) (objects st)"

text \<open>\<open>keptObjects\<close> after \<open>keptObjects.push(...newSpawns)\<close>.\<close>

definition keptObjects :: "Store \<Rightarrow> FrameInput \<Rightarrow> LMState \<Rightarrow> GameObject list" where
  "keptObjects store inp st =
     keptOf (loopResults store inp st) @ spawnsOf (loopResults store inp st)"

text \<open>
  \<open>useFrame((state, delta) => ...)\<close>. The entities are mutated in place, so when
  \<open>hasChanges\<close> stays false the old array holds the moved entities.
\<close>

definition useFrame :: "Store \<Rightarrow> FrameInput \<Rightarrow> LMState \<Rightarrow> LMState \<times> Log" where
  "useFrame store inp st =
     (if status store \<noteq> PLAYING then (st, [])
      else
        (let dst = speed store * safeDeltaOf inp;
             distance = distanceTraveled st + dst;
             rs = loopResults store inp st;
             kept = keptObjects store inp st;
             uid = nextUuid st + length (spawnsOf rs);
             (pushed, nextLetter, ch) =
                planSpawn store inp distance (nextLetterDistance st) kept uid;
             hasChanges = (list_ex changed rs \<or> ch)
         in (st\<lparr>objects := (if hasChanges then kept @ pushed else map ob rs),
                 renderTrigger := (if hasChanges then Suc (renderTrigger st)
                                   else renderTrigger st),
                 distanceTraveled := distance,
                 nextLetterDistance := nextLetter,
                 nextUuid := uid + length pushed\<rparr>,
             logOf rs)))"

section \<open>The transition effect\<close>

definition shopPortal :: "nat \<Rightarrow> GameObject" where
  "shopPortal uid =
     \<lparr>oid = uid, otype = SHOP_PORTAL, position = (0, 0, - 100), active = True,
      val = None, color = None, targetIndex = None, points = None, hasFired = None\<rparr>"

text \<open>\<open>useEffect(() => ..., [status, level, setDistance])\<close>\<close>

definition resetEffect :: "Store \<Rightarrow> LMState \<Rightarrow> LMState \<times> Log" where
  "resetEffect store st =
     (let isRestart = (status store = PLAYING \<and> prevStatus st = GAME_OVER);
          isMenuReset = (status store = MENU);
          isLevelUp = (level store \<noteq> prevLevel st \<and> status store = PLAYING);
          isVictoryReset = (status store = PLAYING \<and> prevStatus st = VICTORY);
          (st1, lg) =
            (if isMenuReset \<or> isRestart \<or> isVictoryReset then
               (st\<lparr>objects := [], renderTrigger := Suc (renderTrigger st),
                   distanceTraveled := 0, nextLetterDistance := getLetterInterval 1\<rparr>, [])
             else if isLevelUp \<and> level store > 1 then
               (st\<lparr>objects := filter (\<lambda>obj. posZ (position obj) > - 80) (objects st)
                               @ [shopPortal (nextUuid st)],
                   nextLetterDistance :=
                     distanceTraveled st - SPAWN_DISTANCE + getLetterInterval (level store),
                   renderTrigger := Suc (renderTrigger st),
                   nextUuid := Suc (nextUuid st)\<rparr>, [])
             else if status store = GAME_OVER \<or> status store = VICTORY then
               (st, [(None, SetDistance \<lfloor>distanceTraveled st\<rfloor>)])
             else (st, []))
      in (st1\<lparr>prevStatus := status store, prevLevel := level store\<rparr>, lg))"

section \<open>Runs of the component\<close>


datatype Step = Frame Store FrameInput | Transition Store

fun step :: "Step \<Rightarrow> LMState \<Rightarrow> LMState \<times> Log" where
  "step (Frame store inp) st = useFrame store inp st"
| "step (Transition store) st = resetEffect store st"

fun run :: "Step list \<Rightarrow> LMState \<Rightarrow> LMState \<times> Log" where
  "run [] st = (st, [])"
| "run (s # ss) st =
     (let (st1, l1) = step s st; (st2, l2) = run ss st1 in (st2, l1 @ l2))"

section \<open>Named parts of the loop body and of the frame\<close>

text \<open>
  The pieces of \<open>stepObject\<close> and \<open>useFrame\<close>, named so that properties can be stated
  about them: the distance an entity moves, the entity after the move, whether an idle
  boar charges in this frame, the entity after the aggro block, the outcome of the
  collision block, and the entities the spawning logic pushes.
\<close>

definition moveOf :: "real \<Rightarrow> real \<Rightarrow> GameObject \<Rightarrow> real" where
  "moveOf dst safeDelta obj = (if otype obj = MISSILE then dst + MISSILE_SPEED * safeDelta else dst)"

definition moved :: "real \<Rightarrow> real \<Rightarrow> GameObject \<Rightarrow> GameObject" where
  "moved dst safeDelta obj =
     obj\<lparr>position := (posX (position obj), posY (position obj),
                       posZ (position obj) + moveOf dst safeDelta obj)\<rparr>"

definition firesNow :: "real \<Rightarrow> real \<Rightarrow> GameObject \<Rightarrow> bool" where
  "firesNow dst safeDelta obj =
     (otype obj = ALIEN \<and> active obj \<and> \<not> truthy (hasFired obj)
      \<and> posZ (position obj) + moveOf dst safeDelta obj > - 90)"

definition aggro :: "real \<Rightarrow> real \<Rightarrow> GameObject \<Rightarrow> GameObject" where
  "aggro dst sd obj = (if firesNow dst sd obj then (moved dst sd obj)\<lparr>hasFired := Some True\<rparr> else moved dst sd obj)"

definition collided :: "real \<Rightarrow> real \<Rightarrow> vec3 \<Rightarrow> GameObject \<Rightarrow> GameObject \<times> bool \<times> Effect list \<times> bool" where
  "collided dst sd pp obj = (if active obj then resolveCollision pp (posZ (position obj)) (aggro dst sd obj)
        else (aggro dst sd obj, True, [], False))"

definition keepNow :: "real \<Rightarrow> real \<Rightarrow> vec3 \<Rightarrow> GameObject \<Rightarrow> bool" where
  "keepNow dst sd pp obj =
     (fst (snd (collided dst sd pp obj))
      \<and> posZ (position obj) + moveOf dst sd obj \<le> REMOVE_DISTANCE)"

definition fxNow :: "real \<Rightarrow> real \<Rightarrow> vec3 \<Rightarrow> GameObject \<Rightarrow> Effect list" where
  "fxNow dst sd pp obj = fst (snd (snd (collided dst sd pp obj)))"

definition changedNow :: "real \<Rightarrow> real \<Rightarrow> vec3 \<Rightarrow> GameObject \<Rightarrow> bool" where
  "changedNow dst sd pp obj =
     (firesNow dst sd obj \<or> snd (snd (snd (collided dst sd pp obj)))
      \<or> posZ (position obj) + moveOf dst sd obj > REMOVE_DISTANCE)"

definition updated :: "real \<Rightarrow> real \<Rightarrow> vec3 \<Rightarrow> GameObject \<Rightarrow> GameObject" where
  "updated dst sd pp obj = fst (collided dst sd pp obj)"

definition frameDist :: "Store \<Rightarrow> FrameInput \<Rightarrow> real" where
  "frameDist store inp = speed store * safeDeltaOf inp"

definition spawnUid :: "Store \<Rightarrow> FrameInput \<Rightarrow> LMState \<Rightarrow> nat" where
  "spawnUid store inp st = nextUuid st + length (spawnsOf (loopResults store inp st))"

definition planned :: "Store \<Rightarrow> FrameInput \<Rightarrow> LMState \<Rightarrow> GameObject list \<times> real \<times> bool" where
  "planned store inp st =
     planSpawn store inp (distanceTraveled st + frameDist store inp) (nextLetterDistance st)
       (keptObjects store inp st) (spawnUid store inp st)"

definition pushedObjects :: "Store \<Rightarrow> FrameInput \<Rightarrow> LMState \<Rightarrow> GameObject list" where
  "pushedObjects store inp st = fst (planned store inp st)"

definition freshIds :: "nat \<Rightarrow> GameObject list \<Rightarrow> bool" where
  "freshIds uid objs = (map oid objs = [uid ..< uid + length objs])"

text \<open>
  Identifiers are well formed when no two entities of the collection share one and
  every one of them was handed out before: \<open>uuidv4()\<close> never repeats itself.
\<close>

definition wellFormed :: "LMState \<Rightarrow> bool" where
  "wellFormed st =
     (distinct (map oid (objects st)) \<and> list_all (\<lambda>obj. oid obj < nextUuid st) (objects st))"

text \<open>A frame that runs while the status is not \<open>PLAYING\<close>.\<close>

fun idleFrame :: "Step \<Rightarrow> bool" where
  "idleFrame (Frame store inp) = (status store \<noteq> PLAYING)"
| "idleFrame (Transition store) = False"

section \<open>A concrete scene\<close>

text \<open>
  Level 1 at the base speed 22.5, three lanes, no letter collected, 50 frames a
  second, the player standing at the origin, and \<open>Math.random()\<close> returning 0 (which
  spawns nothing while no letter is due). One rock lies 0.05 in front of the player
  in the player's lane.
\<close>

definition demoStore :: Store where
  "demoStore = \<lparr>status = PLAYING, speed = 22.5, collectedLetters = [], laneCount = 3, level = 1\<rparr>"

definition demoInput :: FrameInput where
  "demoInput = \<lparr>delta = 0.02, playerObj = Some (0, 0, 0), rand = (\<lambda>k. 0),
                 sortLanes = (\<lambda>lanes. lanes)\<rparr>"

definition rock :: GameObject where
  "rock = \<lparr>oid = 0, otype = OBSTACLE, position = (0, 0.4, - 0.05), active = True,
            val = None, color = Some ''#546e7a'', targetIndex = None, points = None,
            hasFired = None\<rparr>"

definition rockState :: LMState where
  "rockState = \<lparr>objects = [rock], renderTrigger = 1, prevStatus = PLAYING, prevLevel = 1,
                 distanceTraveled = 120, nextLetterDistance = 150, nextUuid = 1\<rparr>"

text \<open>The rock and the scene one frame later, after the player ran into it.\<close>

definition hitRock :: GameObject where
  "hitRock = rock\<lparr>position := (0, 0.4, 0.4), active := False\<rparr>"

definition hitRockState :: LMState where
  "hitRockState = rockState\<lparr>objects := [hitRock], renderTrigger := 2,
                              distanceTraveled := 120.45\<rparr>"

section \<open>Frames in which nothing happens to an entity\<close>

text \<open>
  An entity cruises through a frame when it does not charge, does not leave the
  collection behind the player and, if it is active, is no portal and has not yet
  reached the player's collision window. \<open>cruisesFor n\<close> says so of the last of \<open>n\<close>
  equal frames, which covers the frames before it when the world moves forward;
  \<open>movedBy n\<close> is the entity \<open>n\<close> such frames later.
\<close>

definition cruises :: "real \<Rightarrow> real \<Rightarrow> vec3 \<Rightarrow> GameObject \<Rightarrow> bool" where
  "cruises dst sd pp obj =
     (\<not> firesNow dst sd obj
      \<and> posZ (position obj) + moveOf dst sd obj \<le> REMOVE_DISTANCE
      \<and> (\<not> active obj
         \<or> (otype obj \<noteq> SHOP_PORTAL \<and> posZ (position obj) + moveOf dst sd obj \<le> posZ pp - 2)))"

definition movedBy :: "nat \<Rightarrow> real \<Rightarrow> real \<Rightarrow> GameObject \<Rightarrow> GameObject" where
  "movedBy n dst sd obj =
     obj\<lparr>position := (posX (position obj), posY (position obj),
                       posZ (position obj) + real n * moveOf dst sd obj)\<rparr>"

definition cruisesFor :: "nat \<Rightarrow> real \<Rightarrow> real \<Rightarrow> vec3 \<Rightarrow> GameObject \<Rightarrow> bool" where
  "cruisesFor n dst sd pp obj =
     ((otype obj = ALIEN \<and> active obj \<and> \<not> truthy (hasFired obj)
         \<longrightarrow> posZ (position obj) + real n * moveOf dst sd obj \<le> - 90)
      \<and> posZ (position obj) + real n * moveOf dst sd obj \<le> REMOVE_DISTANCE
      \<and> (\<not> active obj
         \<or> (otype obj \<noteq> SHOP_PORTAL
            \<and> posZ (position obj) + real n * moveOf dst sd obj \<le> posZ pp - 2)))"

section \<open>The spawn gate and the state in which every letter is collected\<close>

text \<open>
  \<open>gateOpen\<close> is the test \<open>furthestZ > -SPAWN_DISTANCE\<close> of this frame and \<open>spawnZOf\<close>
  the z at which it spawns. \<open>allCollected\<close> says that the six indices of H, U, N, T,
  E, R are all in \<open>collectedLetters\<close>. An \<open>allCollectedFrame\<close> is a \<open>PLAYING\<close> frame
  of a world moving forward in which they are.
\<close>

definition gateOpen :: "Store \<Rightarrow> FrameInput \<Rightarrow> LMState \<Rightarrow> bool" where
  "gateOpen store inp st = (furthestZ (keptObjects store inp st) > - SPAWN_DISTANCE)"

definition spawnZOf :: "Store \<Rightarrow> FrameInput \<Rightarrow> LMState \<Rightarrow> real" where
  "spawnZOf store inp st =
     min (furthestZ (keptObjects store inp st) - (12 + speed store * 0.4)) (- SPAWN_DISTANCE)"

definition allCollected :: "Store \<Rightarrow> bool" where
  "allCollected store = list_all (\<lambda>i. i \<in> set (collectedLetters store)) [0..<6]"


text \<open>
  The scene with all six letters collected and a letter due, once with the consumed
  rock near the player and once with a rock far ahead, beyond the spawn distance.
\<close>

definition fullStore :: Store where
  "fullStore = demoStore\<lparr>collectedLetters := [0, 1, 2, 3, 4, 5]\<rparr>"

definition dueState :: LMState where
  "dueState = hitRockState\<lparr>distanceTraveled := 150\<rparr>"

definition farRock :: GameObject where
  "farRock = rock\<lparr>position := (0, 0.4, - 130)\<rparr>"

definition farRockState :: LMState where
  "farRockState = rockState\<lparr>objects := [farRock], distanceTraveled := 150\<rparr>"

section \<open>Idle boars\<close>





definition boar :: "real \<Rightarrow> bool \<Rightarrow> GameObject" where
  "boar z f = \<lparr>oid = 0, otype = ALIEN, position = (0, 0.6, z), active = True, val = None,
               color = Some ''#4e342e'', targetIndex = None, points = None,
               hasFired = Some f\<rparr>"



section \<open>Letter pacing\<close>

text \<open>
  C6: for every level from 1 on, the next level's letter interval is exactly 1.5 times
  this level's, the interval of level 1 is the base interval 150, and so the interval
  never decreases from one level to the next.
\<close>

theorem getLetterInterval_growth:
  assumes "1 \<le> lvl"
  shows "getLetterInterval (lvl + 1) = getLetterInterval lvl * 1.5
         \<and> getLetterInterval 1 = 150
         \<and> getLetterInterval lvl \<le> getLetterInterval (lvl + 1)"
proof -
  from assms have n: "nat (max 0 (lvl + 1 - 1)) = Suc (nat (max 0 (lvl - 1)))"
    by simp
  have step: "getLetterInterval (lvl + 1) = getLetterInterval lvl * 1.5"
    unfolding getLetterInterval_def n by simp
  have base: "getLetterInterval 1 = 150"
    by (simp add: getLetterInterval_def BASE_LETTER_INTERVAL_def)
  have pos: "0 \<le> getLetterInterval lvl"
    by (simp add: getLetterInterval_def BASE_LETTER_INTERVAL_def)
  from step pos have "getLetterInterval lvl \<le> getLetterInterval (lvl + 1)"
    by simp
  with step base show ?thesis by simp
qed

theorem getLetterInterval_growth_witness:
  "(1::int) \<le> 2 \<and> getLetterInterval 3 = getLetterInterval 2 * 1.5
   \<and> getLetterInterval 2 = 225 \<and> getLetterInterval 3 = 337.5"
proof -
  have v2: "getLetterInterval 2 = 225"
    by (simp add: getLetterInterval_def BASE_LETTER_INTERVAL_def)
  from getLetterInterval_growth [of 2] have "getLetterInterval 3 = getLetterInterval 2 * 1.5"
    by simp
  with v2 show ?thesis by simp
qed

section \<open>Properties of the loop body\<close>

lemma resolveCollision_fields:
  "oid (fst (resolveCollision pp pz obj)) = oid obj"
  "otype (fst (resolveCollision pp pz obj)) = otype obj"
  "position (fst (resolveCollision pp pz obj)) = position obj"
  "hasFired (fst (resolveCollision pp pz obj)) = hasFired obj"
  "points (fst (resolveCollision pp pz obj)) = points obj"
  by (simp_all add: resolveCollision_def Let_def)

lemma resolveCollision_active: "active (fst (resolveCollision pp pz obj)) \<Longrightarrow> active obj"
  by (simp add: resolveCollision_def Let_def split: if_splits)

lemma stepObject_eq:
  "stepObject dst sd pp uid obj =
     \<lparr>ob = fst (collided dst sd pp obj),
      keep = (fst (snd (collided dst sd pp obj))
              \<and> \<not> posZ (position obj) + moveOf dst sd obj > REMOVE_DISTANCE),
      spawned = (if firesNow dst sd obj then [chargingBoar uid (moved dst sd obj)] else []),
      fx = fst (snd (snd (collided dst sd pp obj))),
      changed = (firesNow dst sd obj \<or> snd (snd (snd (collided dst sd pp obj)))
                 \<or> posZ (position obj) + moveOf dst sd obj > REMOVE_DISTANCE)\<rparr>"
  by (simp add: stepObject_def collided_def aggro_def firesNow_def moved_def moveOf_def
        chargingBoar_def Let_def case_prod_beta resolveCollision_fields)

lemma stepObject_sel:
  "ob (stepObject dst sd pp uid obj) = updated dst sd pp obj"
  "keep (stepObject dst sd pp uid obj) = keepNow dst sd pp obj"
  "fx (stepObject dst sd pp uid obj) = fxNow dst sd pp obj"
  "changed (stepObject dst sd pp uid obj) = changedNow dst sd pp obj"
  "spawned (stepObject dst sd pp uid obj) =
     (if firesNow dst sd obj then [chargingBoar uid (moved dst sd obj)] else [])"
  by (simp_all add: stepObject_eq updated_def keepNow_def fxNow_def changedNow_def not_less)

lemma moved_fields:
  "oid (moved dst sd obj) = oid obj"
  "otype (moved dst sd obj) = otype obj"
  "active (moved dst sd obj) = active obj"
  "hasFired (moved dst sd obj) = hasFired obj"
  "points (moved dst sd obj) = points obj"
  "posX (position (moved dst sd obj)) = posX (position obj)"
  "posY (position (moved dst sd obj)) = posY (position obj)"
  "posZ (position (moved dst sd obj)) = posZ (position obj) + moveOf dst sd obj"
  by (simp_all add: moved_def)

lemma aggro_fields:
  "oid (aggro dst sd obj) = oid obj"
  "otype (aggro dst sd obj) = otype obj"
  "active (aggro dst sd obj) = active obj"
  "points (aggro dst sd obj) = points obj"
  "position (aggro dst sd obj) = position (moved dst sd obj)"
  "truthy (hasFired (aggro dst sd obj)) = (truthy (hasFired obj) \<or> firesNow dst sd obj)"
  by (simp_all add: aggro_def moved_fields)

lemma updated_fields:
  "oid (updated dst sd pp obj) = oid obj"
  "otype (updated dst sd pp obj) = otype obj"
  "points (updated dst sd pp obj) = points obj"
  "position (updated dst sd pp obj) = position (moved dst sd obj)"
  "hasFired (updated dst sd pp obj) = hasFired (aggro dst sd obj)"
  by (simp_all add: updated_def collided_def resolveCollision_fields aggro_fields)

lemma updated_active: "active (updated dst sd pp obj) \<Longrightarrow> active obj"
  by (auto simp: updated_def collided_def aggro_fields dest: resolveCollision_active
           split: if_splits)

lemma firesNow_active: "firesNow dst sd obj \<Longrightarrow> active obj"
  by (simp add: firesNow_def)

lemma inactive_step:
  assumes "\<not> active obj"
  shows "updated dst sd pp obj = moved dst sd obj"
    and "fxNow dst sd pp obj = []"
    and "\<not> firesNow dst sd obj"
    and "keepNow dst sd pp obj = (posZ (position obj) + moveOf dst sd obj \<le> REMOVE_DISTANCE)"
  using assms
  by (simp_all add: updated_def fxNow_def keepNow_def collided_def aggro_def firesNow_def)

lemma objectLoop_ob:
  "map ob (objectLoop dst sd pp uid objs) = map (updated dst sd pp) objs"
  by (induction objs arbitrary: uid) (simp_all add: Let_def stepObject_sel)

lemma objectLoop_kept:
  "keptOf (objectLoop dst sd pp uid objs)
     = map (updated dst sd pp) (filter (keepNow dst sd pp) objs)"
  by (induction objs arbitrary: uid) (simp_all add: keptOf_def Let_def stepObject_sel)

lemma objectLoop_log:
  "logOf (objectLoop dst sd pp uid objs)
     = concat (map (\<lambda>obj. map (Pair (Some (oid obj))) (fxNow dst sd pp obj)) objs)"
  by (induction objs arbitrary: uid)
     (simp_all add: logOf_def Let_def stepObject_sel updated_fields)

lemma objectLoop_changed:
  "list_ex changed (objectLoop dst sd pp uid objs) = list_ex (changedNow dst sd pp) objs"
  by (induction objs arbitrary: uid) (simp_all add: Let_def stepObject_sel)

lemma objectLoop_spawns_length:
  "length (spawnsOf (objectLoop dst sd pp uid objs)) = length (filter (firesNow dst sd) objs)"
  by (induction objs arbitrary: uid) (simp_all add: spawnsOf_def Let_def stepObject_sel)


lemma freshIds_Nil: "freshIds uid []"
  by (simp add: freshIds_def)

lemma freshIds_Cons:
  assumes "oid obj = uid" and "freshIds (Suc uid) objs"
  shows "freshIds uid (obj # objs)"
proof -
  have "[uid ..< uid + length (obj # objs)] = uid # [Suc uid ..< Suc uid + length objs]"
    by (simp add: upt_conv_Cons del: upt_Suc)
  with assms show ?thesis
    unfolding freshIds_def by (simp del: upt_Suc)
qed

lemma hazardCluster_fresh: "freshIds uid (hazardCluster t z uid lanes)"
  by (induction lanes arbitrary: uid) (simp_all add: freshIds_Nil freshIds_Cons)

lemma obstacleRow_fresh: "freshIds uid (obstacleRow rnd z k uid lanes)"
  by (induction lanes arbitrary: uid k) (simp_all add: Let_def freshIds_Nil freshIds_Cons)

lemma objectLoop_spawns_fresh: "freshIds uid (spawnsOf (objectLoop dst sd pp uid objs))"
proof (induction objs arbitrary: uid)
  case Nil
  show ?case by (simp add: spawnsOf_def freshIds_Nil)
next
  case (Cons obj objs)
  have tl: "freshIds u (concat (map spawned (objectLoop dst sd pp u objs)))" for u
    using Cons.IH [of u] by (simp add: spawnsOf_def)
  show ?case
    by (simp add: spawnsOf_def Let_def stepObject_sel tl chargingBoar_def freshIds_Cons)
qed

lemma spawnRegular_quiet:
  "\<not> rnd 0 > 0.1 \<Longrightarrow> spawnRegular store rnd srt z uid = ([], False)"
  by (simp add: spawnRegular_def)

lemma spawnRegular_snd: "snd (spawnRegular store rnd srt z uid) = (rnd 0 > 0.1)"
  by (simp add: spawnRegular_def Let_def)

lemma spawnRegular_unchanged:
  "\<not> snd (spawnRegular store rnd srt z uid) \<Longrightarrow> fst (spawnRegular store rnd srt z uid) = []"
  by (simp add: spawnRegular_snd spawnRegular_quiet)

lemma planSpawn_unchanged:
  "\<not> snd (snd (planSpawn store inp d nl kept uid)) \<Longrightarrow>
     fst (planSpawn store inp d nl kept uid) = []"
  by (simp add: planSpawn_def Let_def case_prod_beta spawnRegular_unchanged split: if_splits)

lemma spawnRegular_fresh: "freshIds uid (fst (spawnRegular store rnd srt z uid))"
  by (simp add: spawnRegular_def Let_def hazardCluster_fresh obstacleRow_fresh
        freshIds_Nil freshIds_Cons)

lemma spawnLetterDue_fresh: "freshIds uid (fst (spawnLetterDue store rnd nl z uid))"
  by (simp add: spawnLetterDue_def Let_def fallbackGem_def freshIds_Nil freshIds_Cons)

lemma planSpawn_fresh: "freshIds uid (fst (planSpawn store inp d nl kept uid))"
  by (simp add: planSpawn_def Let_def case_prod_beta spawnRegular_fresh
        spawnLetterDue_fresh freshIds_Nil)

lemma resolveCollision_keep:
  "\<not> snd (snd (snd (resolveCollision pp pz obj))) \<Longrightarrow> fst (snd (resolveCollision pp pz obj))"
  by (simp add: resolveCollision_def Let_def split: if_splits)

lemma unchanged_keep: "\<not> changedNow dst sd pp obj \<Longrightarrow> keepNow dst sd pp obj"
  by (auto simp: changedNow_def keepNow_def collided_def dest: resolveCollision_keep)

lemma unchanged_loop:
  assumes "\<not> list_ex (changedNow dst sd pp) objs"
  shows "filter (keepNow dst sd pp) objs = objs" and "filter (firesNow dst sd) objs = []"
proof -
  from assms have a: "\<forall>obj \<in> set objs. \<not> changedNow dst sd pp obj"
    by (simp add: list_ex_iff)
  with unchanged_keep show "filter (keepNow dst sd pp) objs = objs"
    by (simp add: filter_id_conv)
  from a show "filter (firesNow dst sd) objs = []"
    by (auto simp: changedNow_def filter_empty_conv)
qed

lemma loopResults_sel:
  "map ob (loopResults store inp st)
     = map (updated (frameDist store inp) (safeDeltaOf inp) (playerPosOf inp)) (objects st)"
  "keptOf (loopResults store inp st)
     = map (updated (frameDist store inp) (safeDeltaOf inp) (playerPosOf inp))
         (filter (keepNow (frameDist store inp) (safeDeltaOf inp) (playerPosOf inp)) (objects st))"
  "logOf (loopResults store inp st)
     = concat (map (\<lambda>obj. map (Pair (Some (oid obj)))
                           (fxNow (frameDist store inp) (safeDeltaOf inp) (playerPosOf inp) obj))
                 (objects st))"
  "list_ex changed (loopResults store inp st)
     = list_ex (changedNow (frameDist store inp) (safeDeltaOf inp) (playerPosOf inp)) (objects st)"
  "length (spawnsOf (loopResults store inp st))
     = length (filter (firesNow (frameDist store inp) (safeDeltaOf inp)) (objects st))"
  "freshIds (nextUuid st) (spawnsOf (loopResults store inp st))"
  by (simp_all add: loopResults_def frameDist_def objectLoop_ob objectLoop_kept objectLoop_log
        objectLoop_changed objectLoop_spawns_length objectLoop_spawns_fresh)

lemma loop_unchanged_objects:
  assumes "\<not> list_ex changed (loopResults store inp st)"
  shows "keptObjects store inp st = map ob (loopResults store inp st)"
proof -
  from assms have u: "\<not> list_ex (changedNow (frameDist store inp) (safeDeltaOf inp)
                         (playerPosOf inp)) (objects st)"
    by (simp add: loopResults_sel)
  from unchanged_loop(2) [OF u] have "length (spawnsOf (loopResults store inp st)) = 0"
    by (simp add: loopResults_sel)
  then have "spawnsOf (loopResults store inp st) = []"
    by simp
  then show ?thesis
    by (simp add: keptObjects_def loopResults_sel unchanged_loop(1) [OF u])
qed

lemma useFrame_idle: "status store \<noteq> PLAYING \<Longrightarrow> useFrame store inp st = (st, [])"
  by (simp add: useFrame_def)

lemma useFrame_objects:
  assumes "status store = PLAYING"
  shows "objects (fst (useFrame store inp st))
           = keptObjects store inp st @ pushedObjects store inp st"
proof (cases "list_ex changed (loopResults store inp st) \<or> snd (snd (planned store inp st))")
  case True
  with assms show ?thesis
    by (simp add: useFrame_def Let_def case_prod_beta pushedObjects_def planned_def
          spawnUid_def frameDist_def)
next
  case False
  then have "pushedObjects store inp st = []"
    by (simp add: pushedObjects_def planned_def planSpawn_unchanged)
  moreover from False have "keptObjects store inp st = map ob (loopResults store inp st)"
    by (simp add: loop_unchanged_objects)
  ultimately show ?thesis
    using assms False
    by (simp add: useFrame_def Let_def case_prod_beta planned_def spawnUid_def frameDist_def)
qed

lemma useFrame_fields:
  assumes "status store = PLAYING"
  shows "distanceTraveled (fst (useFrame store inp st)) = distanceTraveled st + frameDist store inp"
    and "nextLetterDistance (fst (useFrame store inp st)) = fst (snd (planned store inp st))"
    and "nextUuid (fst (useFrame store inp st))
           = spawnUid store inp st + length (pushedObjects store inp st)"
    and "prevStatus (fst (useFrame store inp st)) = prevStatus st"
    and "prevLevel (fst (useFrame store inp st)) = prevLevel st"
    and "snd (useFrame store inp st) = logOf (loopResults store inp st)"
  using assms
  by (simp_all add: useFrame_def Let_def case_prod_beta pushedObjects_def planned_def
        spawnUid_def frameDist_def)

lemma keptObjects_eq:
  "keptObjects store inp st
     = map (updated (frameDist store inp) (safeDeltaOf inp) (playerPosOf inp))
         (filter (keepNow (frameDist store inp) (safeDeltaOf inp) (playerPosOf inp)) (objects st))
       @ spawnsOf (loopResults store inp st)"
  by (simp add: keptObjects_def loopResults_sel)

lemma pushedObjects_fresh: "freshIds (spawnUid store inp st) (pushedObjects store inp st)"
  by (simp add: pushedObjects_def planned_def planSpawn_fresh)

section \<open>Identifiers stay well formed\<close>

lemma freshIds_set: "freshIds uid objs \<Longrightarrow> obj \<in> set objs \<Longrightarrow> uid \<le> oid obj \<and> oid obj < uid + length objs"
proof -
  assume f: "freshIds uid objs" and m: "obj \<in> set objs"
  from m have "oid obj \<in> set (map oid objs)" by simp
  with f show ?thesis by (simp add: freshIds_def)
qed








lemma run_append:
  "run (xs @ ys) st = (fst (run ys (fst (run xs st))), snd (run xs st) @ snd (run ys (fst (run xs st))))"
  by (induction xs arbitrary: st) (simp_all add: case_prod_beta)


section \<open>Pausing and resetting\<close>

lemma run_idle: "list_all idleFrame ss \<Longrightarrow> run ss st = (st, [])"
proof (induction ss)
  case Nil
  show ?case by simp
next
  case (Cons s ss)
  then show ?case by (cases s) (simp_all add: useFrame_idle)
qed

lemma run_Cons_snoc:
  "run (a # ss @ [b]) st =
     (fst (step b (fst (run ss (fst (step a st))))),
      snd (step a st) @ snd (run ss (fst (step a st)))
        @ snd (step b (fst (run ss (fst (step a st))))))"
  by (simp add: run_append case_prod_beta)

lemma useFrame_prev:
  "useFrame store inp (st\<lparr>prevStatus := a, prevLevel := b\<rparr>)
     = ((fst (useFrame store inp st))\<lparr>prevStatus := a, prevLevel := b\<rparr>,
        snd (useFrame store inp st))"
  by (simp add: useFrame_def loopResults_def keptObjects_def Let_def case_prod_beta)

text \<open>
  C7: in a frame whose status is not \<open>PLAYING\<close> (Shop in particular) the callback
  returns at once: no entity moves and \<open>distanceTraveled\<close> does not grow, whatever
  \<open>delta\<close> is. Entering the Shop, any number of such frames and the return to
  \<open>PLAYING\<close> at the same level leave the collection and the counters as they were,
  and the first \<open>PLAYING\<close> frame after the pause computes what it would have computed
  without it: the entities advance from their positions before the Shop.
\<close>

theorem shop_pause_keeps_world:
  assumes "status shop = SHOP" and "list_all idleFrame ss"
      and "status play = PLAYING" and "level play = level shop"
  shows "(status store \<noteq> PLAYING \<longrightarrow> useFrame store inp st = (st, []))
       \<and> run (Transition shop # ss @ [Transition play]) st
           = (st\<lparr>prevStatus := PLAYING, prevLevel := level play\<rparr>, [])
       \<and> useFrame play inp (fst (run (Transition shop # ss @ [Transition play]) st))
           = ((fst (useFrame play inp st))\<lparr>prevStatus := PLAYING, prevLevel := level play\<rparr>,
              snd (useFrame play inp st))"
proof -
  have a: "resetEffect shop st = (st\<lparr>prevStatus := SHOP, prevLevel := level shop\<rparr>, [])"
    using assms(1) by (simp add: resetEffect_def)
  have b: "resetEffect play (st\<lparr>prevStatus := SHOP, prevLevel := level shop\<rparr>)
             = (st\<lparr>prevStatus := PLAYING, prevLevel := level play\<rparr>, [])"
    using assms(3,4) by (simp add: resetEffect_def)
  have r: "run (Transition shop # ss @ [Transition play]) st
             = (st\<lparr>prevStatus := PLAYING, prevLevel := level play\<rparr>, [])"
    by (subst run_Cons_snoc) (simp add: a b run_idle [OF assms(2)])
  show ?thesis
    unfolding r by (simp add: useFrame_idle useFrame_prev)
qed

theorem shop_pause_keeps_world_witness:
  "status (demoStore\<lparr>status := SHOP\<rparr>) = SHOP
   \<and> list_all idleFrame [Frame (demoStore\<lparr>status := SHOP\<rparr>) demoInput,
                          Frame (demoStore\<lparr>status := SHOP\<rparr>) (demoInput\<lparr>delta := 5\<rparr>)]
   \<and> status demoStore = PLAYING
   \<and> run (Transition (demoStore\<lparr>status := SHOP\<rparr>)
           # [Frame (demoStore\<lparr>status := SHOP\<rparr>) demoInput,
              Frame (demoStore\<lparr>status := SHOP\<rparr>) (demoInput\<lparr>delta := 5\<rparr>)]
           @ [Transition demoStore]) rockState
       = (rockState\<lparr>prevStatus := PLAYING, prevLevel := level demoStore\<rparr>, [])"
proof -
  have h: "status (demoStore\<lparr>status := SHOP\<rparr>) = SHOP"
    "list_all idleFrame [Frame (demoStore\<lparr>status := SHOP\<rparr>) demoInput,
                         Frame (demoStore\<lparr>status := SHOP\<rparr>) (demoInput\<lparr>delta := 5\<rparr>)]"
    "status demoStore = PLAYING" "level demoStore = level (demoStore\<lparr>status := SHOP\<rparr>)"
    by (simp_all add: demoStore_def)
  from shop_pause_keeps_world [OF h, of demoStore demoInput rockState] h show ?thesis
    by blast
qed

text \<open>
  C8: the full reset. Entering \<open>MENU\<close>, or \<open>GAME_OVER\<close>, or \<open>VICTORY\<close>, any number of
  frames in that status and then the start of play leave the component with an empty
  collection, \<open>distanceTraveled = 0\<close> and \<open>nextLetterDistance\<close> at the interval of
  level 1, which is 150. From the menu the store starts play at level 1 (or at the
  level the menu showed).
\<close>

theorem full_reset_clears_world:
  assumes "status before = MENU \<or> status before = GAME_OVER \<or> status before = VICTORY"
      and "list_all idleFrame ss"
      and "status play = PLAYING"
      and "status before = MENU \<longrightarrow> level play = level before \<or> level play \<le> 1"
  shows "objects (fst (run (Transition before # ss @ [Transition play]) st)) = []
       \<and> distanceTraveled (fst (run (Transition before # ss @ [Transition play]) st)) = 0
       \<and> nextLetterDistance (fst (run (Transition before # ss @ [Transition play]) st))
           = getLetterInterval 1
       \<and> getLetterInterval 1 = 150"
proof -
  let ?st1 = "fst (resetEffect before st)"
  have r: "fst (run (Transition before # ss @ [Transition play]) st)
             = fst (resetEffect play ?st1)"
    by (subst run_Cons_snoc) (simp add: run_idle [OF assms(2)])
  have g: "getLetterInterval 1 = 150"
    by (simp add: getLetterInterval_def BASE_LETTER_INTERVAL_def)
  from assms(1) show ?thesis
  proof (elim disjE)
    assume m: "status before = MENU"
    then have s1: "objects ?st1 = [] \<and> distanceTraveled ?st1 = 0
                   \<and> nextLetterDistance ?st1 = getLetterInterval 1
                   \<and> prevStatus ?st1 = MENU \<and> prevLevel ?st1 = level before"
      by (simp add: resetEffect_def)
    from m assms(4) have l: "level play = level before \<or> level play \<le> 1" by simp
    from s1 l assms(3) have "objects (fst (resetEffect play ?st1)) = []
        \<and> distanceTraveled (fst (resetEffect play ?st1)) = 0
        \<and> nextLetterDistance (fst (resetEffect play ?st1)) = getLetterInterval 1"
      by (auto simp: resetEffect_def)
    with g show ?thesis unfolding r by simp
  next
    assume m: "status before = GAME_OVER"
    then have "prevStatus ?st1 = GAME_OVER"
      by (simp add: resetEffect_def Let_def case_prod_beta)
    with assms(3) have "objects (fst (resetEffect play ?st1)) = []
        \<and> distanceTraveled (fst (resetEffect play ?st1)) = 0
        \<and> nextLetterDistance (fst (resetEffect play ?st1)) = getLetterInterval 1"
      by (simp add: resetEffect_def)
    with g show ?thesis unfolding r by simp
  next
    assume m: "status before = VICTORY"
    then have "prevStatus ?st1 = VICTORY"
      by (simp add: resetEffect_def Let_def case_prod_beta)
    with assms(3) have "objects (fst (resetEffect play ?st1)) = []
        \<and> distanceTraveled (fst (resetEffect play ?st1)) = 0
        \<and> nextLetterDistance (fst (resetEffect play ?st1)) = getLetterInterval 1"
      by (simp add: resetEffect_def)
    with g show ?thesis unfolding r by simp
  qed
qed

theorem full_reset_clears_world_witness:
  "status (demoStore\<lparr>status := GAME_OVER\<rparr>) = GAME_OVER
   \<and> list_all idleFrame [Frame (demoStore\<lparr>status := GAME_OVER\<rparr>) demoInput]
   \<and> status demoStore = PLAYING
   \<and> objects (fst (run (Transition (demoStore\<lparr>status := GAME_OVER\<rparr>)
                        # [Frame (demoStore\<lparr>status := GAME_OVER\<rparr>) demoInput]
                        @ [Transition demoStore]) rockState)) = []
   \<and> status (demoStore\<lparr>status := MENU\<rparr>) = MENU
   \<and> objects (fst (run (Transition (demoStore\<lparr>status := MENU\<rparr>)
                        # [Frame (demoStore\<lparr>status := MENU\<rparr>) demoInput]
                        @ [Transition demoStore]) rockState)) = []"
proof -
  have h: "status (demoStore\<lparr>status := GAME_OVER\<rparr>) = MENU
           \<or> status (demoStore\<lparr>status := GAME_OVER\<rparr>) = GAME_OVER
           \<or> status (demoStore\<lparr>status := GAME_OVER\<rparr>) = VICTORY"
    "list_all idleFrame [Frame (demoStore\<lparr>status := GAME_OVER\<rparr>) demoInput]"
    "status demoStore = PLAYING"
    "status (demoStore\<lparr>status := GAME_OVER\<rparr>) = MENU \<longrightarrow>
       level demoStore = level (demoStore\<lparr>status := GAME_OVER\<rparr>) \<or> level demoStore \<le> 1"
    by (simp_all add: demoStore_def)
  have m: "status (demoStore\<lparr>status := MENU\<rparr>) = MENU
           \<or> status (demoStore\<lparr>status := MENU\<rparr>) = GAME_OVER
           \<or> status (demoStore\<lparr>status := MENU\<rparr>) = VICTORY"
    "list_all idleFrame [Frame (demoStore\<lparr>status := MENU\<rparr>) demoInput]"
    "status demoStore = PLAYING"
    "status (demoStore\<lparr>status := MENU\<rparr>) = MENU \<longrightarrow>
       level demoStore = level (demoStore\<lparr>status := MENU\<rparr>) \<or> level demoStore \<le> 1"
    by (simp_all add: demoStore_def)
  have g: "status (demoStore\<lparr>status := GAME_OVER\<rparr>) = GAME_OVER"
    "status (demoStore\<lparr>status := MENU\<rparr>) = MENU"
    by simp_all
  from full_reset_clears_world [OF h, of rockState] full_reset_clears_world [OF m, of rockState]
    h(2,3) g
  show ?thesis by blast
qed

section \<open>Outcomes of the collision block\<close>

lemma collided_inactive:
  "\<not> active obj \<Longrightarrow> collided dst sd pp obj = (moved dst sd obj, True, [], False)"
  by (simp add: collided_def aggro_def firesNow_def)

lemma collided_clear:
  assumes "otype obj \<noteq> SHOP_PORTAL"
      and "\<not> (posZ (position obj) < posZ pp + 2
              \<and> posZ (position obj) + moveOf dst sd obj > posZ pp - 2)"
  shows "collided dst sd pp obj = (aggro dst sd obj, True, [], False)"
  using assms
  by (auto simp: collided_def resolveCollision_def aggro_fields moved_fields)

lemma collided_damage:
  assumes "active obj" and "isDamageSource (otype obj)"
      and "posZ (position obj) < posZ pp + 2"
      and "posZ (position obj) + moveOf dst sd obj > posZ pp - 2"
      and "\<bar>posX (position obj) - posX pp\<bar> < 0.9"
      and "posY pp < objTop obj" and "posY pp + 1.8 > objBottom obj"
  shows "collided dst sd pp obj =
           ((aggro dst sd obj)\<lparr>active := False\<rparr>, True,
            [PlayerHit, TakeDamage (penaltyOf (otype obj))]
            @ (if otype obj = MISSILE \<or> otype obj = MONSTER
               then [ParticleBurst (position (moved dst sd obj)) ''#ff0000'' 50] else []),
            True)"
proof -
  from assms(2) have p: "otype obj \<noteq> SHOP_PORTAL"
    by (auto simp: isDamageSource_def)
  have t: "objTop (aggro dst sd obj) = objTop obj" "objBottom (aggro dst sd obj) = objBottom obj"
    by (simp_all add: objTop_def objBottom_def aggro_fields moved_fields)
  from assms p show ?thesis
    by (simp add: collided_def resolveCollision_def t aggro_fields moved_fields)
qed

section \<open>One entity through one frame\<close>

lemma entity_log:
  assumes "distinct (map oid objs)" and "obj \<in> set objs"
  shows "filter (\<lambda>e. fst e = Some (oid obj))
           (concat (map (\<lambda>obj'. map (Pair (Some (oid obj'))) (f obj')) objs))
         = map (Pair (Some (oid obj))) (f obj)"
  using assms
proof (induction objs)
  case Nil
  then show ?case by simp
next
  case (Cons a objs)
  have none: "oid obj \<notin> oid ` set xs \<Longrightarrow>
      filter (\<lambda>e. fst e = Some (oid obj))
        (concat (map (\<lambda>obj'. map (Pair (Some (oid obj'))) (f obj')) xs)) = []" for xs
    by (induction xs) (auto simp: filter_empty_conv)
  show ?case
  proof (cases "obj = a")
    case True
    with Cons.prems(1) have "oid obj \<notin> oid ` set objs" by auto
    with True none [of objs] show ?thesis by (simp add: filter_id_conv)
  next
    case False
    with Cons.prems have m: "obj \<in> set objs" and d: "distinct (map oid objs)"
      and n: "oid a \<noteq> oid obj"
      by auto
    from n have "filter (\<lambda>e. fst e = Some (oid obj)) (map (Pair (Some (oid a))) (f a)) = []"
      by (auto simp: filter_empty_conv)
    with Cons.IH [OF d m] show ?thesis by simp
  qed
qed

lemma log_sources:
  "e \<in> set (concat (map (\<lambda>obj'. map (Pair (Some (oid obj'))) (f obj')) objs)) \<Longrightarrow>
     \<exists>obj' \<in> set objs. fst e = Some (oid obj') \<and> snd e \<in> set (f obj')"
  by (induction objs) auto

lemma frame_log_entity:
  assumes "wellFormed st" and "status store = PLAYING" and "obj \<in> set (objects st)"
  shows "filter (\<lambda>e. fst e = Some (oid obj)) (snd (useFrame store inp st))
         = map (Pair (Some (oid obj)))
             (fxNow (frameDist store inp) (safeDeltaOf inp) (playerPosOf inp) obj)"
proof -
  from assms(1) have d: "distinct (map oid (objects st))"
    by (simp add: wellFormed_def)
  from assms(2) show ?thesis
    by (simp add: useFrame_fields loopResults_sel entity_log [OF d assms(3)])
qed

lemma frame_log_sources:
  assumes "e \<in> set (snd (useFrame store inp st))"
  shows "\<exists>obj \<in> set (objects st). fst e = Some (oid obj)
           \<and> snd e \<in> set (fxNow (frameDist store inp) (safeDeltaOf inp) (playerPosOf inp) obj)"
proof (cases "status store = PLAYING")
  case True
  with assms show ?thesis
    by (simp add: useFrame_fields loopResults_sel log_sources)
next
  case False
  with assms show ?thesis by (simp add: useFrame_idle)
qed

lemma frame_new_ids:
  assumes "status store = PLAYING"
      and "obj' \<in> set (spawnsOf (loopResults store inp st) @ pushedObjects store inp st)"
  shows "nextUuid st \<le> oid obj'"
proof -
  have f1: "freshIds (nextUuid st) (spawnsOf (loopResults store inp st))"
    by (simp add: loopResults_sel)
  have f2: "freshIds (spawnUid store inp st) (pushedObjects store inp st)"
    by (rule pushedObjects_fresh)
  from assms(2) show ?thesis
  proof (simp, elim disjE)
    assume "obj' \<in> set (spawnsOf (loopResults store inp st))"
    from freshIds_set [OF f1 this] show ?thesis by simp
  next
    assume "obj' \<in> set (pushedObjects store inp st)"
    from freshIds_set [OF f2 this] show ?thesis by (simp add: spawnUid_def)
  qed
qed

lemma frame_entity_after:
  assumes "wellFormed st" and "status store = PLAYING" and "obj \<in> set (objects st)"
      and "obj' \<in> set (objects (fst (useFrame store inp st)))" and "oid obj' = oid obj"
  shows "obj' = updated (frameDist store inp) (safeDeltaOf inp) (playerPosOf inp) obj
         \<and> keepNow (frameDist store inp) (safeDeltaOf inp) (playerPosOf inp) obj"
proof -
  let ?u = "updated (frameDist store inp) (safeDeltaOf inp) (playerPosOf inp)"
  let ?k = "keepNow (frameDist store inp) (safeDeltaOf inp) (playerPosOf inp)"
  from assms(1) have d: "distinct (map oid (objects st))"
    and b: "\<forall>x \<in> set (objects st). oid x < nextUuid st"
    by (simp_all add: wellFormed_def list_all_iff)
  from assms(2,4) have "obj' \<in> set (map ?u (filter ?k (objects st)))
      \<or> obj' \<in> set (spawnsOf (loopResults store inp st) @ pushedObjects store inp st)"
    by (auto simp: useFrame_objects keptObjects_eq)
  then show ?thesis
  proof
    assume "obj' \<in> set (map ?u (filter ?k (objects st)))"
    then obtain x where x: "x \<in> set (objects st)" "?k x" "obj' = ?u x" by auto
    with assms(5) have "oid x = oid obj" by (simp add: updated_fields)
    with d x(1) assms(3) have "x = obj" by (auto simp: distinct_map inj_on_def)
    with x show ?thesis by simp
  next
    assume "obj' \<in> set (spawnsOf (loopResults store inp st) @ pushedObjects store inp st)"
    from frame_new_ids [OF assms(2) this] b assms(3,5) show ?thesis by auto
  qed
qed

lemma frame_entity_kept:
  assumes "status store = PLAYING" and "obj \<in> set (objects st)"
      and "keepNow (frameDist store inp) (safeDeltaOf inp) (playerPosOf inp) obj"
  shows "updated (frameDist store inp) (safeDeltaOf inp) (playerPosOf inp) obj
           \<in> set (objects (fst (useFrame store inp st)))"
  using assms by (simp add: useFrame_objects keptObjects_eq)

section \<open>Frames in which the spawning logic pushes nothing\<close>

lemma planSpawn_quiet:
  assumes "\<not> rand inp 0 > 0.1" and "d < nl"
  shows "planSpawn store inp d nl kept uid = ([], nl, False)"
  using assms by (simp add: planSpawn_def Let_def spawnRegular_quiet)

lemma useFrame_quiet:
  assumes "status store = PLAYING" and "\<not> rand inp 0 > 0.1"
      and "distanceTraveled st + frameDist store inp < nextLetterDistance st"
  shows "useFrame store inp st =
           (st\<lparr>objects :=
                 map (updated (frameDist store inp) (safeDeltaOf inp) (playerPosOf inp))
                   (filter (keepNow (frameDist store inp) (safeDeltaOf inp) (playerPosOf inp))
                      (objects st))
                 @ spawnsOf (loopResults store inp st),
               renderTrigger :=
                 (if list_ex (changedNow (frameDist store inp) (safeDeltaOf inp)
                                (playerPosOf inp)) (objects st)
                  then Suc (renderTrigger st) else renderTrigger st),
               distanceTraveled := distanceTraveled st + frameDist store inp,
               nextLetterDistance := nextLetterDistance st,
               nextUuid := nextUuid st + length (spawnsOf (loopResults store inp st))\<rparr>,
            concat (map (\<lambda>obj. map (Pair (Some (oid obj)))
                                  (fxNow (frameDist store inp) (safeDeltaOf inp)
                                     (playerPosOf inp) obj))
                      (objects st)))"
proof -
  have p: "planSpawn store inp (distanceTraveled st + speed store * safeDeltaOf inp)
             (nextLetterDistance st) kept uid = ([], nextLetterDistance st, False)" for kept uid
    using assms(2,3) by (simp add: planSpawn_quiet frameDist_def)
  show ?thesis
  proof (cases "list_ex changed (loopResults store inp st)")
    case True
    with assms(1) show ?thesis
      using True [unfolded loopResults_sel(4)]
      by (simp add: useFrame_def Let_def p keptObjects_eq loopResults_sel(3) frameDist_def)
  next
    case False
    have e: "map ob (loopResults store inp st) = keptObjects store inp st"
      by (rule loop_unchanged_objects [OF False, symmetric])
    from assms(1) False show ?thesis
      using False [unfolded loopResults_sel(4)]
      by (simp add: useFrame_def Let_def p e keptObjects_eq loopResults_sel(3) frameDist_def)
  qed
qed

lemmas scene_defs = demoStore_def demoInput_def rockState_def rock_def hitRockState_def
  hitRock_def frameDist_def safeDeltaOf_def playerPosOf_def

lemmas part_defs = updated_def keepNow_def fxNow_def changedNow_def aggro_def firesNow_def
  moved_def moveOf_def objTop_def objBottom_def penaltyOf_def isDamageSource_def
  REMOVE_DISTANCE_def MISSILE_SPEED_def SCORE_PENALTY_OBSTACLE_def SCORE_PENALTY_BOAR_def
  SCORE_PENALTY_MONSTER_def

lemma rock_hit_frame:
  "useFrame demoStore demoInput rockState
     = (hitRockState, [(Some 0, PlayerHit), (Some 0, TakeDamage 10)])"
proof -
  have q: "status demoStore = PLAYING" "\<not> rand demoInput 0 > 0.1"
    "distanceTraveled rockState + frameDist demoStore demoInput < nextLetterDistance rockState"
    by (simp_all add: scene_defs)
  have c: "collided (frameDist demoStore demoInput) (safeDeltaOf demoInput)
             (playerPosOf demoInput) rock
           = (hitRock, True, [PlayerHit, TakeDamage 10], True)"
    by (subst collided_damage) (simp_all add: scene_defs part_defs)
  have l: "spawnsOf (loopResults demoStore demoInput rockState) = []"
    by (simp add: loopResults_def spawnsOf_def stepObject_sel rockState_def firesNow_def rock_def)
  show ?thesis
    unfolding useFrame_quiet [OF q] l
    by (simp add: rockState_def hitRockState_def updated_def keepNow_def fxNow_def
          changedNow_def c)
      (simp add: scene_defs part_defs)
qed


section \<open>Collision resolution\<close>

text \<open>
  C1: in a \<open>PLAYING\<close> frame with the player at z = 0, an active Obstacle whose
  previous z is below 2 and whose z after the move is above -2, within 0.9 of the
  player sideways, and whose band from 0 to 1.0 overlaps the player's band from y to
  y + 1.8, is resolved in that frame: the calls made for it are exactly one
  \<open>player-hit\<close> event followed by \<open>takeDamage(10)\<close>, it is inactive in the collection
  afterwards, and (unless it is already behind the removal distance) it is still
  there, moved and inactive.
\<close>

theorem obstacle_hit_resolves:
  assumes "wellFormed st" and "status store = PLAYING" and "obj \<in> set (objects st)"
      and "otype obj = OBSTACLE" and "active obj"
      and "posZ (playerPosOf inp) = 0"
      and "posZ (position obj) < 2" and "posZ (position obj) + frameDist store inp > - 2"
      and "\<bar>posX (position obj) - posX (playerPosOf inp)\<bar> < 0.9"
      and "posY (playerPosOf inp) < 1.0" and "posY (playerPosOf inp) + 1.8 > 0"
  shows "filter (\<lambda>e. fst e = Some (oid obj)) (snd (useFrame store inp st))
           = [(Some (oid obj), PlayerHit), (Some (oid obj), TakeDamage 10)]
       \<and> (\<forall>obj' \<in> set (objects (fst (useFrame store inp st))).
             oid obj' = oid obj \<longrightarrow> \<not> active obj')
       \<and> (posZ (position obj) + frameDist store inp \<le> 20 \<longrightarrow>
             obj\<lparr>position := (posX (position obj), posY (position obj),
                                posZ (position obj) + frameDist store inp),
                  active := False\<rparr>
               \<in> set (objects (fst (useFrame store inp st))))"
proof -
  let ?d = "frameDist store inp" and ?sd = "safeDeltaOf inp" and ?pp = "playerPosOf inp"
  have mv: "moveOf ?d ?sd obj = ?d"
    using assms(4) by (simp add: moveOf_def)
  have ag: "aggro ?d ?sd obj = moved ?d ?sd obj"
    using assms(4) by (simp add: aggro_def firesNow_def)
  have c: "collided ?d ?sd ?pp obj
             = ((moved ?d ?sd obj)\<lparr>active := False\<rparr>, True, [PlayerHit, TakeDamage 10], True)"
    using assms(4-11)
    by (subst collided_damage)
       (simp_all add: mv ag isDamageSource_def objTop_def objBottom_def penaltyOf_def
          SCORE_PENALTY_OBSTACLE_def)
  have u: "updated ?d ?sd ?pp obj
             = obj\<lparr>position := (posX (position obj), posY (position obj),
                                  posZ (position obj) + ?d),
                    active := False\<rparr>"
    by (simp add: updated_def c moved_def mv)
  have k: "keepNow ?d ?sd ?pp obj = (posZ (position obj) + ?d \<le> 20)"
    by (simp add: keepNow_def c mv REMOVE_DISTANCE_def)
  have lg: "filter (\<lambda>e. fst e = Some (oid obj)) (snd (useFrame store inp st))
              = [(Some (oid obj), PlayerHit), (Some (oid obj), TakeDamage 10)]"
    by (simp add: frame_log_entity [OF assms(1-3)] fxNow_def c)
  have dead: "\<forall>obj' \<in> set (objects (fst (useFrame store inp st))).
                oid obj' = oid obj \<longrightarrow> \<not> active obj'"
  proof (intro ballI impI)
    fix obj' assume "obj' \<in> set (objects (fst (useFrame store inp st)))" "oid obj' = oid obj"
    from frame_entity_after [OF assms(1-3) this] show "\<not> active obj'"
      by (simp add: u)
  qed
  have there: "posZ (position obj) + ?d \<le> 20 \<longrightarrow>
                 obj\<lparr>position := (posX (position obj), posY (position obj),
                                    posZ (position obj) + ?d),
                      active := False\<rparr>
                   \<in> set (objects (fst (useFrame store inp st)))"
    using frame_entity_kept [OF assms(2,3), of inp] by (simp add: k u)
  from lg dead there show ?thesis by blast
qed

theorem obstacle_hit_resolves_witness:
  "wellFormed rockState \<and> status demoStore = PLAYING \<and> rock \<in> set (objects rockState)
   \<and> otype rock = OBSTACLE \<and> active rock \<and> posZ (position rock) = - 0.05
   \<and> filter (\<lambda>e. fst e = Some (oid rock)) (snd (useFrame demoStore demoInput rockState))
       = [(Some (oid rock), PlayerHit), (Some (oid rock), TakeDamage 10)]"
proof -
  have h: "wellFormed rockState" "status demoStore = PLAYING" "rock \<in> set (objects rockState)"
    "otype rock = OBSTACLE" "active rock" "posZ (playerPosOf demoInput) = 0"
    "posZ (position rock) < 2" "posZ (position rock) + frameDist demoStore demoInput > - 2"
    "\<bar>posX (position rock) - posX (playerPosOf demoInput)\<bar> < 0.9"
    "posY (playerPosOf demoInput) < 1.0" "posY (playerPosOf demoInput) + 1.8 > 0"
    by (simp_all add: scene_defs wellFormed_def)
  have z: "posZ (position rock) = - 0.05"
    by (simp add: rock_def)
  from obstacle_hit_resolves [OF h] h z show ?thesis by blast
qed

lemma step_silent:
  assumes "i < nextUuid st" and "\<forall>obj \<in> set (objects st). oid obj = i \<longrightarrow> \<not> active obj"
  shows "i < nextUuid (fst (step s st))"
    and "\<forall>obj \<in> set (objects (fst (step s st))). oid obj = i \<longrightarrow> \<not> active obj"
    and "\<forall>e \<in> set (snd (step s st)). fst e \<noteq> Some i"
proof -
  have "i < nextUuid (fst (step s st))
      \<and> (\<forall>obj \<in> set (objects (fst (step s st))). oid obj = i \<longrightarrow> \<not> active obj)
      \<and> (\<forall>e \<in> set (snd (step s st)). fst e \<noteq> Some i)"
  proof (cases s)
    case (Transition store)
    from assms show ?thesis
      by (auto simp: Transition resetEffect_def Let_def shopPortal_def)
  next
    case (Frame store inp)
    let ?u = "updated (frameDist store inp) (safeDeltaOf inp) (playerPosOf inp)"
    let ?k = "keepNow (frameDist store inp) (safeDeltaOf inp) (playerPosOf inp)"
    show ?thesis
    proof (cases "status store = PLAYING")
      case False
      with assms show ?thesis by (simp add: Frame useFrame_idle)
    next
      case True
      have n: "i < nextUuid (fst (useFrame store inp st))"
        using assms(1) True by (simp add: useFrame_fields spawnUid_def)
      have o: "\<forall>obj \<in> set (objects (fst (useFrame store inp st))). oid obj = i \<longrightarrow> \<not> active obj"
      proof (intro ballI impI)
        fix obj' assume m: "obj' \<in> set (objects (fst (useFrame store inp st)))" and e: "oid obj' = i"
        from m True have "obj' \<in> set (map ?u (filter ?k (objects st)))
            \<or> obj' \<in> set (spawnsOf (loopResults store inp st) @ pushedObjects store inp st)"
          by (auto simp: useFrame_objects keptObjects_eq)
        then show "\<not> active obj'"
        proof
          assume "obj' \<in> set (map ?u (filter ?k (objects st)))"
          then obtain x where x: "x \<in> set (objects st)" "obj' = ?u x" by auto
          with e have "oid x = i" by (simp add: updated_fields)
          with assms(2) x(1) have "\<not> active x" by simp
          with x(2) show ?thesis by (auto dest: updated_active)
        next
          assume "obj' \<in> set (spawnsOf (loopResults store inp st) @ pushedObjects store inp st)"
          from frame_new_ids [OF True this] assms(1) e show ?thesis by simp
        qed
      qed
      have l: "\<forall>e \<in> set (snd (useFrame store inp st)). fst e \<noteq> Some i"
      proof
        fix e assume "e \<in> set (snd (useFrame store inp st))"
        from frame_log_sources [OF this] obtain x where x: "x \<in> set (objects st)"
          "fst e = Some (oid x)"
          "snd e \<in> set (fxNow (frameDist store inp) (safeDeltaOf inp) (playerPosOf inp) x)"
          by blast
        show "fst e \<noteq> Some i"
        proof
          assume "fst e = Some i"
          with x(2) have "oid x = i" by simp
          with assms(2) x(1) have "\<not> active x" by simp
          with x(3) show False by (simp add: inactive_step)
        qed
      qed
      from n o l show ?thesis by (simp add: Frame)
    qed
  qed
  then show "i < nextUuid (fst (step s st))"
    and "\<forall>obj \<in> set (objects (fst (step s st))). oid obj = i \<longrightarrow> \<not> active obj"
    and "\<forall>e \<in> set (snd (step s st)). fst e \<noteq> Some i"
    by blast+
qed

lemma run_silent:
  assumes "i < nextUuid st" and "\<forall>obj \<in> set (objects st). oid obj = i \<longrightarrow> \<not> active obj"
  shows "(\<forall>e \<in> set (snd (run steps st)). fst e \<noteq> Some i)
       \<and> (\<forall>obj \<in> set (objects (fst (run steps st))). oid obj = i \<longrightarrow> \<not> active obj)"
  using assms
proof (induction steps arbitrary: st)
  case Nil
  then show ?case by simp
next
  case (Cons s steps)
  note a = step_silent [OF Cons.prems, of s]
  from Cons.IH [OF a(1,2)] a(3) show ?case
    by (auto simp: case_prod_beta)
qed

text \<open>
  C4: once an entity of the collection is inactive, nothing that follows, whatever the
  frames and transitions, makes a call for it: no damage, no score, no letter, no shop,
  no event; and it is never active again.
\<close>

theorem resolved_entity_is_silent:
  assumes "wellFormed st" and "obj \<in> set (objects st)" and "\<not> active obj"
  shows "(\<forall>e \<in> set (snd (run steps st)). fst e \<noteq> Some (oid obj))
       \<and> (\<forall>obj' \<in> set (objects (fst (run steps st))). oid obj' = oid obj \<longrightarrow> \<not> active obj')"
proof -
  from assms(1,2) have n: "oid obj < nextUuid st"
    by (simp add: wellFormed_def list_all_iff)
  from assms(1) have "distinct (map oid (objects st))"
    by (simp add: wellFormed_def)
  with assms(2) have "\<forall>x \<in> set (objects st). oid x = oid obj \<longrightarrow> x = obj"
    by (auto simp: distinct_map inj_on_def)
  with assms(3) have "\<forall>x \<in> set (objects st). oid x = oid obj \<longrightarrow> \<not> active x"
    by blast
  from run_silent [OF n this] show ?thesis .
qed

theorem resolved_entity_is_silent_witness:
  "wellFormed hitRockState \<and> hitRock \<in> set (objects hitRockState) \<and> \<not> active hitRock
   \<and> (Some (oid hitRock), TakeDamage 10)
        \<notin> set (snd (run [Frame demoStore demoInput, Frame demoStore demoInput] hitRockState))
   \<and> (Some (oid hitRock), PlayerHit)
        \<notin> set (snd (run [Frame demoStore demoInput, Frame demoStore demoInput] hitRockState))"
proof -
  have h: "wellFormed hitRockState" "hitRock \<in> set (objects hitRockState)" "\<not> active hitRock"
    by (simp_all add: scene_defs wellFormed_def)
  from resolved_entity_is_silent [OF h] h show ?thesis by fastforce
qed

section \<open>Cruising\<close>

lemma cruises_step:
  assumes "cruises dst sd pp obj"
  shows "updated dst sd pp obj = moved dst sd obj" and "keepNow dst sd pp obj"
    and "fxNow dst sd pp obj = []" and "\<not> changedNow dst sd pp obj"
    and "\<not> firesNow dst sd obj"
proof -
  from assms have nf: "\<not> firesNow dst sd obj"
    and z: "posZ (position obj) + moveOf dst sd obj \<le> REMOVE_DISTANCE"
    and c: "\<not> active obj \<or> (otype obj \<noteq> SHOP_PORTAL
              \<and> posZ (position obj) + moveOf dst sd obj \<le> posZ pp - 2)"
    by (simp_all add: cruises_def)
  from nf have ag: "aggro dst sd obj = moved dst sd obj"
    by (simp add: aggro_def)
  have col: "collided dst sd pp obj = (moved dst sd obj, True, [], False)"
  proof (cases "active obj")
    case False
    then show ?thesis by (rule collided_inactive)
  next
    case True
    with c have "otype obj \<noteq> SHOP_PORTAL"
      and "\<not> (posZ (position obj) < posZ pp + 2
              \<and> posZ (position obj) + moveOf dst sd obj > posZ pp - 2)"
      by auto
    from collided_clear [OF this] ag show ?thesis by simp
  qed
  show "updated dst sd pp obj = moved dst sd obj" by (simp add: updated_def col)
  from z show "keepNow dst sd pp obj" by (simp add: keepNow_def col)
  show "fxNow dst sd pp obj = []" by (simp add: fxNow_def col)
  from nf z show "\<not> changedNow dst sd pp obj" by (simp add: changedNow_def col)
  from nf show "\<not> firesNow dst sd obj" .
qed

lemma useFrame_cruise:
  assumes "status store = PLAYING" and "\<not> rand inp 0 > 0.1"
      and "distanceTraveled st + frameDist store inp < nextLetterDistance st"
      and "list_all (cruises (frameDist store inp) (safeDeltaOf inp) (playerPosOf inp)) (objects st)"
  shows "useFrame store inp st =
           (st\<lparr>objects := map (moved (frameDist store inp) (safeDeltaOf inp)) (objects st),
               distanceTraveled := distanceTraveled st + frameDist store inp\<rparr>, [])"
proof -
  let ?d = "frameDist store inp" and ?sd = "safeDeltaOf inp" and ?pp = "playerPosOf inp"
  from assms(4) have c: "\<forall>obj \<in> set (objects st). cruises ?d ?sd ?pp obj"
    by (simp add: list_all_iff)
  have k: "filter (keepNow ?d ?sd ?pp) (objects st) = objects st"
    using c by (simp add: filter_id_conv cruises_step)
  have u: "map (updated ?d ?sd ?pp) (objects st) = map (moved ?d ?sd) (objects st)"
    using c by (simp add: cruises_step)
  have f: "filter (firesNow ?d ?sd) (objects st) = []"
    using c by (auto simp: filter_empty_conv cruises_def)
  have "length (spawnsOf (loopResults store inp st)) = 0"
    by (simp add: loopResults_sel f)
  then have sp: "spawnsOf (loopResults store inp st) = []" by simp
  have ch: "\<not> list_ex (changedNow ?d ?sd ?pp) (objects st)"
    using c by (simp add: list_ex_iff cruises_step)
  have lg: "concat (map (\<lambda>obj. map (Pair (Some (oid obj))) (fxNow ?d ?sd ?pp obj)) (objects st)) = []"
    using c by (simp add: cruises_step)
  show ?thesis
    unfolding useFrame_quiet [OF assms(1-3)] k u sp lg using ch by simp
qed

lemma moveOf_moved: "moveOf dst sd (moved dst' sd' obj) = moveOf dst sd obj"
  by (simp add: moveOf_def moved_fields)

lemma movedBy_Suc: "movedBy n dst sd (moved dst sd obj) = movedBy (Suc n) dst sd obj"
  by (simp add: movedBy_def moved_def moveOf_def algebra_simps)

lemma vec3_eta: "(posX p, posY p, posZ p) = p"
  by (cases p) simp

lemma movedBy_0: "movedBy 0 dst sd obj = obj"
  by (simp add: movedBy_def vec3_eta)

lemma cruisesFor_Suc:
  assumes "cruisesFor (Suc n) dst sd pp obj" and "0 \<le> dst" and "0 \<le> sd"
  shows "cruises dst sd pp obj" and "cruisesFor n dst sd pp (moved dst sd obj)"
proof -
  have m: "0 \<le> moveOf dst sd obj"
    using assms(2,3) by (simp add: moveOf_def MISSILE_SPEED_def)
  then have le: "posZ (position obj) + moveOf dst sd obj
                   \<le> posZ (position obj) + real (Suc n) * moveOf dst sd obj"
    by (simp add: algebra_simps)
  from assms(1) le show "cruises dst sd pp obj"
    by (auto simp: cruisesFor_def cruises_def firesNow_def)
  have e: "posZ (position obj) + moveOf dst sd obj + real n * moveOf dst sd obj
             = posZ (position obj) + real (Suc n) * moveOf dst sd obj"
    by (simp add: algebra_simps)
  from assms(1) show "cruisesFor n dst sd pp (moved dst sd obj)"
    by (simp add: cruisesFor_def moved_fields moveOf_moved e)
qed

lemma run_cruise:
  assumes "status store = PLAYING" and "\<not> rand inp 0 > 0.1"
      and "distanceTraveled st + real n * frameDist store inp < nextLetterDistance st"
      and "0 \<le> frameDist store inp" and "0 \<le> safeDeltaOf inp"
      and "list_all (cruisesFor n (frameDist store inp) (safeDeltaOf inp) (playerPosOf inp))
             (objects st)"
  shows "run (replicate n (Frame store inp)) st =
           (st\<lparr>objects := map (movedBy n (frameDist store inp) (safeDeltaOf inp)) (objects st),
               distanceTraveled := distanceTraveled st + real n * frameDist store inp\<rparr>, [])"
  using assms(3,6)
proof (induction n arbitrary: st)
  case 0
  then show ?case by (simp add: movedBy_0)
next
  case (Suc n)
  let ?d = "frameDist store inp" and ?sd = "safeDeltaOf inp" and ?pp = "playerPosOf inp"
  let ?st1 = "st\<lparr>objects := map (moved ?d ?sd) (objects st),
                  distanceTraveled := distanceTraveled st + ?d\<rparr>"
  from Suc.prems(2) have all: "\<forall>obj \<in> set (objects st). cruisesFor (Suc n) ?d ?sd ?pp obj"
    by (simp add: list_all_iff)
  from all have c1: "list_all (cruises ?d ?sd ?pp) (objects st)"
    by (auto simp: list_all_iff intro: cruisesFor_Suc(1) [OF _ assms(4,5)])
  from all have c2: "list_all (cruisesFor n ?d ?sd ?pp) (objects ?st1)"
    by (auto simp: list_all_iff intro: cruisesFor_Suc(2) [OF _ assms(4,5)])
  have "0 \<le> real n * ?d" using assms(4) by simp
  with Suc.prems(1) have d1: "distanceTraveled st + ?d < nextLetterDistance st"
    by (simp add: algebra_simps)
  from Suc.prems(1) have d2: "distanceTraveled ?st1 + real n * ?d < nextLetterDistance ?st1"
    by (simp add: algebra_simps)
  have f: "useFrame store inp st = (?st1, [])"
    by (rule useFrame_cruise [OF assms(1,2) d1 c1])
  have r: "run (replicate n (Frame store inp)) ?st1
             = (?st1\<lparr>objects := map (movedBy n ?d ?sd) (objects ?st1),
                      distanceTraveled := distanceTraveled ?st1 + real n * ?d\<rparr>, [])"
    by (rule Suc.IH [OF d2 c2])
  show ?case
    by (simp add: f r movedBy_Suc comp_def algebra_simps)
qed

section \<open>Inactive entities\<close>

text \<open>
  C2, as the code has it: an inactive entity is not pruned for being inactive. In every
  \<open>PLAYING\<close> frame it is moved with the world (a missile by its charge as well) and
  stays in the collection as long as its new z is at most \<open>REMOVE_DISTANCE\<close> = 20; in
  the frame in which its z exceeds 20 it is pruned. How long it stays depends on its
  z position alone.
\<close>

theorem inactive_entity_kept_until_behind:
  assumes "wellFormed st" and "status store = PLAYING" and "obj \<in> set (objects st)"
      and "\<not> active obj"
  shows "(posZ (position obj) + moveOf (frameDist store inp) (safeDeltaOf inp) obj \<le> 20 \<longrightarrow>
            moved (frameDist store inp) (safeDeltaOf inp) obj
              \<in> set (objects (fst (useFrame store inp st))))
       \<and> (posZ (position obj) + moveOf (frameDist store inp) (safeDeltaOf inp) obj > 20 \<longrightarrow>
            (\<forall>obj' \<in> set (objects (fst (useFrame store inp st))). oid obj' \<noteq> oid obj))"
proof -
  let ?d = "frameDist store inp" and ?sd = "safeDeltaOf inp" and ?pp = "playerPosOf inp"
  have u: "updated ?d ?sd ?pp obj = moved ?d ?sd obj"
    and k: "keepNow ?d ?sd ?pp obj = (posZ (position obj) + moveOf ?d ?sd obj \<le> 20)"
    using assms(4) by (simp_all add: inactive_step REMOVE_DISTANCE_def)
  have a: "posZ (position obj) + moveOf ?d ?sd obj \<le> 20 \<longrightarrow>
             moved ?d ?sd obj \<in> set (objects (fst (useFrame store inp st)))"
    using frame_entity_kept [OF assms(2,3), of inp] by (simp add: u k)
  have b: "posZ (position obj) + moveOf ?d ?sd obj > 20 \<longrightarrow>
             (\<forall>obj' \<in> set (objects (fst (useFrame store inp st))). oid obj' \<noteq> oid obj)"
  proof (intro impI ballI notI)
    fix obj'
    assume far: "posZ (position obj) + moveOf ?d ?sd obj > 20"
      and "obj' \<in> set (objects (fst (useFrame store inp st)))" and "oid obj' = oid obj"
    from frame_entity_after [OF assms(1-3) this(2,3)] far show False
      by (simp add: k)
  qed
  from a b show ?thesis by blast
qed

theorem inactive_entity_kept_until_behind_witness:
  "wellFormed hitRockState \<and> status demoStore = PLAYING \<and> hitRock \<in> set (objects hitRockState)
   \<and> \<not> active hitRock
   \<and> hitRock\<lparr>position := (0, 0.4, 0.85)\<rparr>
       \<in> set (objects (fst (useFrame demoStore demoInput hitRockState)))"
proof -
  have h: "wellFormed hitRockState" "status demoStore = PLAYING"
    "hitRock \<in> set (objects hitRockState)" "\<not> active hitRock"
    by (simp_all add: scene_defs wellFormed_def)
  have z: "posZ (position hitRock)
             + moveOf (frameDist demoStore demoInput) (safeDeltaOf demoInput) hitRock \<le> 20"
    by (simp add: scene_defs moveOf_def)
  have m: "moved (frameDist demoStore demoInput) (safeDeltaOf demoInput) hitRock
             = hitRock\<lparr>position := (0, 0.4, 0.85)\<rparr>"
    by (simp add: scene_defs moveOf_def moved_def)
  from inactive_entity_kept_until_behind [OF h, of demoInput] z m h show ?thesis
    by simp
qed

text \<open>
  The rock of the scene is consumed in the first frame. It is still in the collection,
  inactive, two frames later.
\<close>

theorem consumed_rock_persists:
  "fst (run [Frame demoStore demoInput] rockState) = hitRockState
   \<and> \<not> active hitRock
   \<and> objects (fst (run [Frame demoStore demoInput, Frame demoStore demoInput,
                         Frame demoStore demoInput] rockState))
       = [hitRock\<lparr>position := (0, 0.4, 1.3)\<rparr>]"
proof -
  have q: "status demoStore = PLAYING" "\<not> rand demoInput 0 > 0.1"
    "distanceTraveled hitRockState + real 2 * frameDist demoStore demoInput
       < nextLetterDistance hitRockState"
    "0 \<le> frameDist demoStore demoInput" "0 \<le> safeDeltaOf demoInput"
    "list_all (cruisesFor 2 (frameDist demoStore demoInput) (safeDeltaOf demoInput)
                 (playerPosOf demoInput)) (objects hitRockState)"
    by (simp_all add: scene_defs part_defs cruisesFor_def)
  have two: "run (replicate 2 (Frame demoStore demoInput)) hitRockState
               = (hitRockState\<lparr>objects := [hitRock\<lparr>position := (0, 0.4, 1.3)\<rparr>],
                                distanceTraveled := 121.35\<rparr>, [])"
    unfolding run_cruise [OF q] by (simp add: scene_defs part_defs movedBy_def)
  have l: "[Frame demoStore demoInput, Frame demoStore demoInput, Frame demoStore demoInput]
             = [Frame demoStore demoInput] @ replicate 2 (Frame demoStore demoInput)"
    by (simp add: numeral_2_eq_2)
  have one: "run [Frame demoStore demoInput] rockState
               = (hitRockState, [(Some 0, PlayerHit), (Some 0, TakeDamage 10)])"
    by (simp add: rock_hit_frame)
  have a: "\<not> active hitRock" by (simp add: hitRock_def)
  show ?thesis
    unfolding l run_append one by (simp add: two a)
qed

section \<open>The spawn planner when every letter is collected\<close>

lemmas spawn_scene_defs = fullStore_def dueState_def farRock_def farRockState_def

lemma planSpawn_closed:
  "\<not> furthestZ kept > - SPAWN_DISTANCE \<Longrightarrow> planSpawn store inp d nl kept uid = ([], nl, False)"
  by (simp add: planSpawn_def)

lemma spawnLetterDue_all:
  assumes "allCollected store"
  shows "spawnLetterDue store rnd nl z uid
           = ([fallbackGem uid (getRandomLane (rnd 0) (laneCount store)) z], nl)"
proof -
  have len: "length [''H'', ''U'', ''N'', ''T'', ''E'', ''R''] = 6"
    by simp
  from assms have e: "filter (\<lambda>i. i \<notin> set (collectedLetters store)) [0..<6] = []"
    by (simp add: allCollected_def list_all_iff filter_empty_conv)
  show ?thesis
    unfolding spawnLetterDue_def Let_def len e by simp
qed

lemma fullStore_allCollected: "allCollected fullStore"
proof -
  have "i < 6 \<Longrightarrow> i = 0 \<or> i = 1 \<or> i = 2 \<or> i = 3 \<or> i = 4 \<or> i = 5" for i :: nat
    by arith
  then show ?thesis
    by (auto simp: allCollected_def fullStore_def list_all_iff)
qed

lemma planSpawn_due_all:
  assumes "furthestZ kept > - SPAWN_DISTANCE" and "nl \<le> d" and "allCollected store"
  shows "planSpawn store inp d nl kept uid
           = ([fallbackGem uid (getRandomLane (rand inp 0) (laneCount store))
                 (min (furthestZ kept - (12 + speed store * 0.4)) (- SPAWN_DISTANCE))],
              nl, True)"
  using assms(1,2) by (simp add: planSpawn_def Let_def spawnLetterDue_all [OF assms(3)])

lemma planned_due_all:
  assumes "nextLetterDistance st \<le> distanceTraveled st + frameDist store inp"
      and "allCollected store"
  shows "planned store inp st =
           (if gateOpen store inp st
            then ([fallbackGem (spawnUid store inp st)
                     (getRandomLane (rand inp 0) (laneCount store)) (spawnZOf store inp st)],
                  nextLetterDistance st, True)
            else ([], nextLetterDistance st, False))"
  using assms
  by (simp add: planned_def gateOpen_def spawnZOf_def planSpawn_closed planSpawn_due_all)

text \<open>
  C5, as the code has it: in a \<open>PLAYING\<close> frame whose spawn gate is open (the nearest
  horizon \<open>furthestZ\<close> is above -120), in which a letter is due (the distance travelled,
  this frame included, has reached \<open>nextLetterDistance\<close>) and all six letters are
  collected, the spawning logic pushes exactly one entity: the fallback Gem with 100
  points at the spawn z, and no Letter. \<open>nextLetterDistance\<close> stays as it was.
\<close>

theorem fallback_gem_when_all_collected:
  assumes "status store = PLAYING" and "gateOpen store inp st"
      and "nextLetterDistance st \<le> distanceTraveled st + frameDist store inp"
      and "allCollected store"
  shows "pushedObjects store inp st
           = [fallbackGem (spawnUid store inp st)
                (getRandomLane (rand inp 0) (laneCount store)) (spawnZOf store inp st)]
       \<and> objects (fst (useFrame store inp st))
           = keptObjects store inp st
             @ [fallbackGem (spawnUid store inp st)
                  (getRandomLane (rand inp 0) (laneCount store)) (spawnZOf store inp st)]
       \<and> otype (fallbackGem (spawnUid store inp st)
                  (getRandomLane (rand inp 0) (laneCount store)) (spawnZOf store inp st)) = GEM
       \<and> points (fallbackGem (spawnUid store inp st)
                   (getRandomLane (rand inp 0) (laneCount store)) (spawnZOf store inp st))
           = Some 100
       \<and> posZ (position (fallbackGem (spawnUid store inp st)
                   (getRandomLane (rand inp 0) (laneCount store)) (spawnZOf store inp st)))
           = spawnZOf store inp st
       \<and> nextLetterDistance (fst (useFrame store inp st)) = nextLetterDistance st"
proof -
  note p = planned_due_all [OF assms(3,4)]
  from assms(2) have pu: "pushedObjects store inp st
           = [fallbackGem (spawnUid store inp st)
                (getRandomLane (rand inp 0) (laneCount store)) (spawnZOf store inp st)]"
    by (simp add: pushedObjects_def p)
  from assms(1,2) have nl: "nextLetterDistance (fst (useFrame store inp st)) = nextLetterDistance st"
    by (simp add: useFrame_fields p)
  from assms(1) pu nl show ?thesis
    by (simp add: useFrame_objects fallbackGem_def)
qed

lemma keptObjects_cruise:
  assumes "list_all (cruises (frameDist store inp) (safeDeltaOf inp) (playerPosOf inp)) (objects st)"
  shows "keptObjects store inp st = map (moved (frameDist store inp) (safeDeltaOf inp)) (objects st)"
proof -
  let ?d = "frameDist store inp" and ?sd = "safeDeltaOf inp" and ?pp = "playerPosOf inp"
  from assms have c: "\<forall>obj \<in> set (objects st). cruises ?d ?sd ?pp obj"
    by (simp add: list_all_iff)
  have k: "filter (keepNow ?d ?sd ?pp) (objects st) = objects st"
    using c by (simp add: filter_id_conv cruises_step)
  have u: "map (updated ?d ?sd ?pp) (objects st) = map (moved ?d ?sd) (objects st)"
    using c by (simp add: cruises_step)
  have f: "filter (firesNow ?d ?sd) (objects st) = []"
    using c by (auto simp: filter_empty_conv cruises_def)
  have "length (spawnsOf (loopResults store inp st)) = 0"
    by (simp add: loopResults_sel f)
  then have sp: "spawnsOf (loopResults store inp st) = []" by simp
  show ?thesis by (simp add: keptObjects_eq k u sp)
qed

theorem fallback_gem_when_all_collected_witness:
  "status fullStore = PLAYING \<and> gateOpen fullStore demoInput dueState
   \<and> nextLetterDistance dueState \<le> distanceTraveled dueState + frameDist fullStore demoInput
   \<and> allCollected fullStore
   \<and> pushedObjects fullStore demoInput dueState
       = [fallbackGem (spawnUid fullStore demoInput dueState)
            (getRandomLane (rand demoInput 0) (laneCount fullStore))
            (spawnZOf fullStore demoInput dueState)]
   \<and> getRandomLane (rand demoInput 0) (laneCount fullStore) = - 1
   \<and> spawnZOf fullStore demoInput dueState = - 120"
proof -
  have c: "list_all (cruises (frameDist fullStore demoInput) (safeDeltaOf demoInput)
                       (playerPosOf demoInput)) (objects dueState)"
    by (simp add: spawn_scene_defs scene_defs part_defs cruises_def)
  have k: "keptObjects fullStore demoInput dueState = [hitRock\<lparr>position := (0, 0.4, 0.85)\<rparr>]"
    unfolding keptObjects_cruise [OF c]
    by (simp add: spawn_scene_defs scene_defs part_defs)
  have fz: "furthestZ (keptObjects fullStore demoInput dueState) = 0.85"
    unfolding k by (simp add: furthestZ_def hitRock_def rock_def)
  have h: "status fullStore = PLAYING" "gateOpen fullStore demoInput dueState"
    "nextLetterDistance dueState \<le> distanceTraveled dueState + frameDist fullStore demoInput"
    "allCollected fullStore"
    by (simp_all add: gateOpen_def fz SPAWN_DISTANCE_def fullStore_allCollected)
       (simp_all add: spawn_scene_defs scene_defs)
  have l: "getRandomLane (rand demoInput 0) (laneCount fullStore) = - 1"
    by (simp add: getRandomLane_def spawn_scene_defs scene_defs)
  have z: "spawnZOf fullStore demoInput dueState = - 120"
    by (simp add: spawnZOf_def fz SPAWN_DISTANCE_def) (simp add: spawn_scene_defs scene_defs)
  from fallback_gem_when_all_collected [OF h] h l z show ?thesis by blast
qed

text \<open>
  With the only entity still beyond the spawn distance the gate is closed: a letter is
  due and all six letters are collected, yet the frame pushes nothing.
\<close>

theorem no_gem_behind_closed_gate:
  "status fullStore = PLAYING
   \<and> nextLetterDistance farRockState \<le> distanceTraveled farRockState
   \<and> collectedLetters fullStore = [0, 1, 2, 3, 4, 5]
   \<and> objects farRockState = [farRock] \<and> otype farRock = OBSTACLE
   \<and> objects (fst (useFrame fullStore demoInput farRockState))
       = [farRock\<lparr>position := (0, 0.4, - 129.55)\<rparr>]"
proof -
  have c: "list_all (cruises (frameDist fullStore demoInput) (safeDeltaOf demoInput)
                       (playerPosOf demoInput)) (objects farRockState)"
    by (simp add: spawn_scene_defs scene_defs part_defs cruises_def)
  have k: "keptObjects fullStore demoInput farRockState
             = [farRock\<lparr>position := (0, 0.4, - 129.55)\<rparr>]"
    unfolding keptObjects_cruise [OF c]
    by (simp add: spawn_scene_defs scene_defs part_defs)
  have fz: "furthestZ (keptObjects fullStore demoInput farRockState) = - 129.55"
    unfolding k by (simp add: furthestZ_def farRock_def rock_def)
  have s: "status fullStore = PLAYING"
    by (simp add: fullStore_def demoStore_def)
  have p: "pushedObjects fullStore demoInput farRockState = []"
    by (simp add: pushedObjects_def planned_def planSpawn_closed fz SPAWN_DISTANCE_def)
  have o: "objects (fst (useFrame fullStore demoInput farRockState))
             = [farRock\<lparr>position := (0, 0.4, - 129.55)\<rparr>]"
    by (simp add: useFrame_objects [OF s] p k)
  show ?thesis
    using o by (simp add: spawn_scene_defs scene_defs)
qed






section \<open>Idle boars charge once\<close>




































end
